theory Spec2Isabelle
  imports Main "HOL-Library.Word" "HOL-Library.Multiset" "HOL-Library.Product_Lexorder"
begin

section \<open>Tables and values\<close>

text \<open>
  A table is the list of its rows in storage order. Timestamps
  (\<open>TIMESTAMP WITH TIME ZONE\<close>) are integers, the number of microseconds since the epoch;
  \<open>now()\<close> is an argument of every routine that reads the clock. A column that the table
  definition leaves nullable is an \<open>option\<close>, \<open>None\<close> being SQL's \<open>NULL\<close>. The arguments of
  the stored routines are taken to be non-\<open>NULL\<close> values. An \<open>INTEGER\<close> is an \<open>int\<close>; an
  \<open>UPDATE\<close> that would store a sum beyond 32 bits raises, as the database does. The errors
  are the constraint violations the schema tests tell apart and that one.
\<close>

type_synonym timestamp = int

datatype pg_error =
  UNIQUE_VIOLATION | NOT_NULL_VIOLATION | FOREIGN_KEY_VIOLATION | NUMERIC_VALUE_OUT_OF_RANGE

section \<open>The notification mechanism (migration 005)\<close>

text \<open>
  In \<open>fby_notification\<close> the column \<open>attempts\<close> has a default but no \<open>NOT NULL\<close>, so it is
  nullable like \<open>last_attempted\<close> and \<open>last_error\<close>.
\<close>

datatype fby_notification_status = PENDING | OK

record fby_notification =
  nid :: int
  hook_id :: int
  projection_id :: int
  scheduled_for :: timestamp
  attempts :: "int option"
  status :: fby_notification_status
  last_attempted :: "timestamp option"
  last_error :: "string option"

text \<open>
  The database state the routines of the migration work on: the rows of
  \<open>fby_notification\<close>, the last value handed out by the sequence behind its \<open>SERIAL\<close>
  primary key, and the primary keys of \<open>fby_hook\<close> and \<open>fby_projection\<close>, the two tables
  the foreign keys of a notification point to (they are created by earlier migrations).
\<close>

record fby_db =
  notifications :: "fby_notification list"
  fby_notification_id_seq :: int
  fby_hook_ids :: "int list"
  fby_projection_ids :: "int list"

text \<open>The two table constraints: the primary key and the named unique constraint.\<close>

definition fby_notification_pkey :: "fby_notification list \<Rightarrow> bool" where
  "fby_notification_pkey rows = distinct (map nid rows)"

definition uniq_key :: "fby_notification \<Rightarrow> int \<times> int \<times> fby_notification_status" where
  "uniq_key n = (hook_id n, projection_id n, status n)"

definition fby_notification_hook_id_projection_id_status_uniq :: "fby_notification list \<Rightarrow> bool" where
  "fby_notification_hook_id_projection_id_status_uniq rows = distinct (map uniq_key rows)"

subsection \<open>\<open>fby_schedule_notification\<close>\<close>

text \<open>
  The row the \<open>INSERT\<close> proposes (\<open>EXCLUDED\<close> in the \<open>ON CONFLICT\<close> clause): the two
  values given, every other column at its default.
\<close>

definition excluded_row :: "int \<Rightarrow> timestamp \<Rightarrow> int \<Rightarrow> int \<Rightarrow> fby_notification" where
  "excluded_row new_id now p_hook_id p_projection_id =
     \<lparr> nid = new_id, hook_id = p_hook_id, projection_id = p_projection_id,
       scheduled_for = now, attempts = Some 0, status = PENDING,
       last_attempted = None, last_error = None \<rparr>"

text \<open>The \<open>DO UPDATE SET\<close> list, applied to the row that conflicts with \<open>EXCLUDED\<close>.\<close>

definition do_update :: "fby_notification \<Rightarrow> fby_notification \<Rightarrow> fby_notification" where
  "do_update ex n =
     n\<lparr> nid := nid ex, scheduled_for := scheduled_for ex, attempts := Some 0,
        last_attempted := None, last_error := None \<rparr>"

text \<open>
  \<open>INSERT \<dots> ON CONFLICT (hook_id, projection_id, status) DO UPDATE\<close>. The sequence is
  advanced first. A row with the key of \<open>EXCLUDED\<close> is updated in place, otherwise
  \<open>EXCLUDED\<close> is appended. The primary key is not the conflict target, so a clash of the
  new id with another row raises a unique violation; an inserted row must also satisfy
  the two foreign keys. An error aborts the transaction: no state is returned (the
  sequence alone would keep the value it handed out).
\<close>

definition fby_schedule_notification ::
  "timestamp \<Rightarrow> int \<Rightarrow> int \<Rightarrow> fby_db \<Rightarrow> pg_error + fby_db" where
  "fby_schedule_notification now p_hook_id p_projection_id db =
     (let new_id = fby_notification_id_seq db + 1;
          ex = excluded_row new_id now p_hook_id p_projection_id;
          rows = notifications db
      in if uniq_key ex \<in> set (map uniq_key rows) then
           (if new_id \<in> set (map nid (filter (\<lambda>n. uniq_key n \<noteq> uniq_key ex) rows))
            then Inl UNIQUE_VIOLATION
            else Inr (db\<lparr> notifications :=
                            map (\<lambda>n. if uniq_key n = uniq_key ex then do_update ex n else n) rows,
                          fby_notification_id_seq := new_id \<rparr>))
         else if new_id \<in> set (map nid rows) then Inl UNIQUE_VIOLATION
         else if p_hook_id \<notin> set (fby_hook_ids db) \<or> p_projection_id \<notin> set (fby_projection_ids db)
           then Inl FOREIGN_KEY_VIOLATION
         else Inr (db\<lparr> notifications := rows @ [ex], fby_notification_id_seq := new_id \<rparr>))"

subsection \<open>\<open>fby_get_next_notification\<close>\<close>

record next_notification =
  next_id :: int
  next_hook_id :: int
  next_attempts :: "int option"

text \<open>
  SQL's \<open>n.attempts + 1\<close> and \<open>n.attempts < p_max_attempts\<close>: \<open>NULL + 1\<close> is \<open>NULL\<close>, and a
  \<open>WHERE\<close> clause that evaluates to \<open>NULL\<close> rejects the row.
\<close>

definition sql_plus_one :: "int option \<Rightarrow> int option" where
  "sql_plus_one a = map_option (\<lambda>x. x + 1) a"

definition sql_less :: "int option \<Rightarrow> int \<Rightarrow> bool" where
  "sql_less a m = (case a of None \<Rightarrow> False | Some x \<Rightarrow> x < m)"

text \<open>
  The \<open>WHERE\<close> clause, and \<open>FOR UPDATE SKIP LOCKED\<close>: \<open>locked\<close> holds the ids of the rows
  that other transactions have locked.
\<close>

definition is_due :: "int \<Rightarrow> timestamp \<Rightarrow> int list \<Rightarrow> fby_notification \<Rightarrow> bool" where
  "is_due p_max_attempts now locked n =
     (status n = PENDING \<and> scheduled_for n \<le> now \<and> sql_less (attempts n) p_max_attempts
        \<and> nid n \<notin> set locked)"

definition select_row :: "fby_notification \<Rightarrow> next_notification" where
  "select_row n =
     \<lparr> next_id = nid n, next_hook_id = hook_id n, next_attempts = sql_plus_one (attempts n) \<rparr>"

text \<open>
  \<open>LIMIT 1\<close> without \<open>ORDER BY\<close>: the first row of the scan that qualifies, if there is
  one. The order of the list stands for the order of the scan.
\<close>

definition fby_get_next_notification ::
  "int \<Rightarrow> timestamp \<Rightarrow> int list \<Rightarrow> fby_notification list \<Rightarrow> next_notification option" where
  "fby_get_next_notification p_max_attempts now locked rows =
     map_option select_row (find (is_due p_max_attempts now locked) rows)"

subsection \<open>\<open>fby_pass_notification\<close> and \<open>fby_fail_notification\<close>\<close>

text \<open>
  Both routines end with an \<open>UPDATE\<close> that sets \<open>attempts = n.attempts + 1\<close> in the row with
  the given id. On a counter at 2147483647 the addition raises \<open>integer out of range\<close>
  (SQLSTATE 22003), the statement fails and the routine with it. \<open>overflows\<close> says that the
  \<open>UPDATE\<close> meets such a row.
\<close>

definition overflows :: "int \<Rightarrow> fby_notification list \<Rightarrow> bool" where
  "overflows p_id rows =
     list_ex (\<lambda>n. nid n = p_id \<and> (case attempts n of None \<Rightarrow> False | Some a \<Rightarrow> 2147483647 \<le> a))
       rows"

text \<open>
  \<open>SELECT hook_id \<dots> INTO v_hook_id\<close> leaves \<open>v_hook_id\<close> \<open>NULL\<close> when no row has the id;
  the \<open>DELETE\<close> then removes nothing, since \<open>n.hook_id = NULL\<close> is never true. The \<open>UPDATE\<close>
  works on what the \<open>DELETE\<close> has left. When it raises, the routine has no effect: no
  state is returned.
\<close>

definition fby_pass_notification ::
  "int \<Rightarrow> timestamp \<Rightarrow> fby_notification list \<Rightarrow> pg_error + fby_notification list" where
  "fby_pass_notification p_id now rows =
     (let v_hook_id = map_option hook_id (find (\<lambda>n. nid n = p_id) rows);
          kept = filter (\<lambda>n. \<not> (Some (hook_id n) = v_hook_id \<and> status n = OK)) rows
      in if overflows p_id kept then Inl NUMERIC_VALUE_OUT_OF_RANGE
         else Inr (map (\<lambda>n. if nid n = p_id
                            then n\<lparr> attempts := sql_plus_one (attempts n), status := OK,
                                    last_attempted := Some now, last_error := None \<rparr>
                            else n) kept))"

definition fby_fail_notification ::
  "int \<Rightarrow> timestamp \<Rightarrow> string \<Rightarrow> timestamp \<Rightarrow> fby_notification list
     \<Rightarrow> pg_error + fby_notification list" where
  "fby_fail_notification p_id p_scheduled_for p_error now rows =
     (if overflows p_id rows then Inl NUMERIC_VALUE_OUT_OF_RANGE
      else Inr (map (\<lambda>n. if nid n = p_id
                         then n\<lparr> attempts := sql_plus_one (attempts n),
                                 scheduled_for := p_scheduled_for,
                                 last_attempted := Some now, last_error := Some p_error \<rparr>
                         else n) rows))"


subsection \<open>Table states\<close>


text \<open>
  The states a database reaches from \<open>db\<close> by calls of the three routines that write
  notifications. A call that raises leaves no new state.
\<close>

inductive reaches :: "fby_db \<Rightarrow> fby_db \<Rightarrow> bool" for db :: fby_db where
  start: "reaches db db"
| schedule: "reaches db db1 \<Longrightarrow> fby_schedule_notification now h p db1 = Inr db2 \<Longrightarrow> reaches db db2"
| pass: "reaches db db1 \<Longrightarrow> fby_pass_notification i now (notifications db1) = Inr rows' \<Longrightarrow>
     reaches db (db1\<lparr> notifications := rows' \<rparr>)"
| fail: "reaches db db1 \<Longrightarrow> fby_fail_notification i s e now (notifications db1) = Inr rows' \<Longrightarrow>
     reaches db (db1\<lparr> notifications := rows' \<rparr>)"

text \<open>Sample rows and states: a row that has failed twice, a delivered row, a delivered
  row of the same hook for another projection, a pending row
  whose counter is \<open>NULL\<close> and one whose counter is at the end of the 32-bit range, the
  empty table with one hook and one projection, and a table with a delivered and a
  pending notification of the same hook and projection.\<close>

definition row1 :: fby_notification where
  "row1 = \<lparr> nid = 1, hook_id = 7, projection_id = 3, scheduled_for = 100, attempts = Some 2,
            status = PENDING, last_attempted = Some 90, last_error = Some ''boom'' \<rparr>"

definition row_ok :: fby_notification where
  "row_ok = \<lparr> nid = 1, hook_id = 7, projection_id = 3, scheduled_for = 100, attempts = Some 1,
            status = OK, last_attempted = Some 100, last_error = None \<rparr>"

definition row_earlier :: fby_notification where
  "row_earlier = \<lparr> nid = 5, hook_id = 7, projection_id = 4, scheduled_for = 50, attempts = Some 1,
            status = OK, last_attempted = Some 60, last_error = None \<rparr>"

definition row_null :: fby_notification where
  "row_null = \<lparr> nid = 1, hook_id = 7, projection_id = 3, scheduled_for = 100, attempts = None,
            status = PENDING, last_attempted = None, last_error = None \<rparr>"

definition row_max :: fby_notification where
  "row_max = \<lparr> nid = 1, hook_id = 7, projection_id = 3, scheduled_for = 100,
            attempts = Some 2147483647, status = PENDING, last_attempted = Some 90,
            last_error = Some ''boom'' \<rparr>"

definition db_created :: fby_db where
  "db_created = \<lparr> notifications = [], fby_notification_id_seq = 0, fby_hook_ids = [7],
                  fby_projection_ids = [3] \<rparr>"

definition db_busy :: fby_db where
  "db_busy = \<lparr> notifications =
       [\<lparr> nid = 1, hook_id = 7, projection_id = 3, scheduled_for = 100, attempts = Some 1,
          status = OK, last_attempted = Some 150, last_error = None \<rparr>,
        \<lparr> nid = 2, hook_id = 7, projection_id = 3, scheduled_for = 300, attempts = Some 1,
          status = PENDING, last_attempted = Some 250, last_error = Some ''boom'' \<rparr>],
      fby_notification_id_seq = 2, fby_hook_ids = [7], fby_projection_ids = [3] \<rparr>"

section \<open>Change sets (migration 006)\<close>

text \<open>A row of \<open>rdf_change_set\<close>, as the table stores it.\<close>

record rdf_change_set =
  cs_id :: int
  effective :: timestamp
  cs_notes :: "string option"
  last_modified :: timestamp
  entity_tag :: string

text \<open>
  The row as the \<open>BEFORE INSERT\<close> trigger sees it (\<open>NEW\<close>): the id is there, from the
  statement or from the sequence, and every other column may still be \<open>NULL\<close>. The
  \<open>NOT NULL\<close> constraints are checked after the trigger.
\<close>

record new_change_set =
  new_id :: int
  new_effective :: "timestamp option"
  new_notes :: "string option"
  new_last_modified :: "timestamp option"
  new_entity_tag :: "string option"

text \<open>
  \<open>gen_random_bytes(n)\<close> of pgcrypto returns \<open>n\<close> bytes; the source of randomness
  is an argument, the byte it yields at each position. \<open>encode(bytes, 'hex')\<close> writes each
  byte as two lower-case hexadecimal digits, the high one first.
\<close>

definition gen_random_bytes :: "(nat \<Rightarrow> 8 word) \<Rightarrow> nat \<Rightarrow> 8 word list" where
  "gen_random_bytes src n = map src [0..<n]"

definition hex_digit :: "nat \<Rightarrow> char" where
  "hex_digit d = ''0123456789abcdef'' ! d"

definition encode_hex :: "8 word list \<Rightarrow> string" where
  "encode_hex bytes = concat (map (\<lambda>b. [hex_digit (unat b div 16), hex_digit (unat b mod 16)]) bytes)"

text \<open>The trigger function \<open>rdf_on_new_change_set\<close>: two assignments to \<open>NEW\<close>.\<close>

definition rdf_on_new_change_set ::
  "timestamp \<Rightarrow> (nat \<Rightarrow> 8 word) \<Rightarrow> new_change_set \<Rightarrow> new_change_set" where
  "rdf_on_new_change_set now src NEW =
     NEW\<lparr> new_last_modified := Some now,
          new_entity_tag := Some (encode_hex (gen_random_bytes src 10)) \<rparr>"

text \<open>
  An \<open>INSERT\<close> of one row into \<open>rdf_change_set\<close>: the trigger
  \<open>rdf_change_set_insert_trigger\<close> rewrites the row, then the \<open>NOT NULL\<close> constraints and the
  primary key are checked, and the row is appended.
\<close>

definition rdf_change_set_insert ::
  "timestamp \<Rightarrow> (nat \<Rightarrow> 8 word) \<Rightarrow> new_change_set \<Rightarrow> rdf_change_set list
     \<Rightarrow> pg_error + rdf_change_set list" where
  "rdf_change_set_insert now src NEW tbl =
     (let row = rdf_on_new_change_set now src NEW
      in case (new_effective row, new_last_modified row, new_entity_tag row) of
           (Some e, Some m, Some t) \<Rightarrow>
             if new_id row \<in> set (map cs_id tbl) then Inl UNIQUE_VIOLATION
             else Inr (tbl @ [\<lparr> cs_id = new_id row, effective = e, cs_notes = new_notes row,
                                 last_modified = m, entity_tag = t \<rparr>])
         | _ \<Rightarrow> Inl NOT_NULL_VIOLATION)"

text \<open>The tables that inserts build, starting from the empty table the migration creates.\<close>

inductive populated :: "rdf_change_set list \<Rightarrow> bool" where
  created: "populated []"
| inserted: "populated tbl \<Longrightarrow> rdf_change_set_insert now src NEW tbl = Inr tbl' \<Longrightarrow> populated tbl'"

text \<open>
  Modelled from the spec: \<open>getChangeSet\<close> is not among the sources. The spec gives
  \<open>getChangeSet(id) \<rightarrow> ChangeSet | none\<close>, a read of the row with that id; \<open>entityTag\<close> and
  \<open>lastModified\<close> are its columns \<open>entity_tag\<close> and \<open>last_modified\<close>. A read leaves the table
  as it is.
\<close>

definition getChangeSet :: "int \<Rightarrow> rdf_change_set list \<Rightarrow> rdf_change_set option" where
  "getChangeSet i tbl = find (\<lambda>r. cs_id r = i) tbl"

text \<open>The pattern \<open>^[0-9a-f]{20}$\<close>: twenty characters, each a digit or a letter from a to f.\<close>

definition matches_entity_tag :: "string \<Rightarrow> bool" where
  "matches_entity_tag s = (length s = 20 \<and> list_all (\<lambda>c. c \<in> set ''0123456789abcdef'') s)"

text \<open>The insert of the schema test, with a sample source of bytes, and the row it stores.\<close>

definition countries_new :: new_change_set where
  "countries_new = \<lparr> new_id = 1, new_effective = Some 1586044800000000,
                     new_notes = Some ''Countries'', new_last_modified = None,
                     new_entity_tag = None \<rparr>"

definition sample_src :: "nat \<Rightarrow> 8 word" where
  "sample_src k = of_nat (37 * k + 171)"

definition countries_row :: rdf_change_set where
  "countries_row = \<lparr> cs_id = 1, effective = 1586044800000000, cs_notes = Some ''Countries'',
                     last_modified = 1700000000000000, entity_tag = ''abd0f51a3f6489aed3f8'' \<rparr>"

section \<open>The query API\<close>

text \<open>
  The tables the read operations join, with the columns the API tests insert:
  \<open>rdf_projection (id, name, version)\<close>,
  \<open>rdf_projection_entity (projection_id, entity_id)\<close> and
  \<open>rdf_data_frame (id, change_set_id, entity_id, action)\<close>, next to \<open>rdf_change_set\<close>.
\<close>

record rdf_projection =
  p_id :: int
  p_name :: string
  p_version :: int

record rdf_projection_entity =
  pe_projection_id :: int
  pe_entity_id :: int

datatype rdf_action = POST | DELETE

record rdf_data_frame =
  f_id :: int
  f_change_set_id :: int
  f_entity_id :: int
  f_action :: rdf_action

record rdf_db =
  projection_entities :: "rdf_projection_entity list"
  change_sets :: "rdf_change_set list"
  data_frames :: "rdf_data_frame list"

subsection \<open>\<open>getChangeLog\<close>\<close>

text \<open>
  The join behind the change log of a projection: a change set, once for every data
  frame in it and every dependency of the projection on the entity of that frame.
\<close>

definition change_log_join :: "rdf_db \<Rightarrow> rdf_projection \<Rightarrow> rdf_change_set list" where
  "change_log_join db p =
     [c. c \<leftarrow> change_sets db,
         f \<leftarrow> data_frames db, f_change_set_id f = cs_id c,
         pe \<leftarrow> projection_entities db,
         pe_entity_id pe = f_entity_id f \<and> pe_projection_id pe = p_id p]"

text \<open>One row for each change-set id.\<close>

fun distinct_on_id :: "rdf_change_set list \<Rightarrow> rdf_change_set list" where
  "distinct_on_id [] = []"
| "distinct_on_id (c # cs) =
     (if cs_id c \<in> set (map cs_id cs) then distinct_on_id cs else c # distinct_on_id cs)"

text \<open>
  Modelled from the spec: \<open>getChangeLog\<close> is not among the sources. The spec gives
  \<open>getChangeLog(projection)\<close> as all change sets that contain at least one data frame for
  any entity the projection depends on, in \<open>(effective ASC, id ASC)\<close> order, de-duplicated
  by change-set id.
\<close>

definition getChangeLog :: "rdf_db \<Rightarrow> rdf_projection \<Rightarrow> rdf_change_set list" where
  "getChangeLog db p =
     sort_key (\<lambda>c. (effective c, cs_id c)) (distinct_on_id (change_log_join db p))"

text \<open>
  A change set belongs to the log of a projection when one of its data frames is for an
  entity the projection depends on.
\<close>

definition in_change_log :: "rdf_db \<Rightarrow> rdf_projection \<Rightarrow> rdf_change_set \<Rightarrow> bool" where
  "in_change_log db p c =
     list_ex (\<lambda>f. f_change_set_id f = cs_id c \<and>
                 list_ex (\<lambda>pe. pe_entity_id pe = f_entity_id f \<and> pe_projection_id pe = p_id p)
                   (projection_entities db))
       (data_frames db)"

text \<open>The order of the log between an entry and a later one: by \<open>effective\<close>, then by id.\<close>

definition precedes :: "rdf_change_set \<Rightarrow> rdf_change_set \<Rightarrow> bool" where
  "precedes c d = (effective c < effective d \<or> (effective c = effective d \<and> cs_id c < cs_id d))"

text \<open>
  The data of the two API tests of the change log: two projections over three entities
  and five change sets, and one change set with three frames. The trigger has filled in
  \<open>last_modified\<close> and \<open>entity_tag\<close>.
\<close>

definition change_set_row :: "int \<Rightarrow> timestamp \<Rightarrow> string \<Rightarrow> rdf_change_set" where
  "change_set_row i e n =
     \<lparr> cs_id = i, effective = e, cs_notes = Some n, last_modified = 1700000000000000,
       entity_tag = ''abd0f51a3f6489aed3f8'' \<rparr>"

definition vat_rates_v1 :: rdf_projection where
  "vat_rates_v1 = \<lparr> p_id = 1, p_name = ''VAT Rates'', p_version = 1 \<rparr>"

definition change_log_test_db :: rdf_db where
  "change_log_test_db =
     \<lparr> projection_entities =
         [\<lparr> pe_projection_id = 1, pe_entity_id = 1 \<rparr>, \<lparr> pe_projection_id = 1, pe_entity_id = 2 \<rparr>,
          \<lparr> pe_projection_id = 2, pe_entity_id = 1 \<rparr>, \<lparr> pe_projection_id = 2, pe_entity_id = 3 \<rparr>],
       change_sets =
         [change_set_row 1 1586044800000000 ''Countries'',
          change_set_row 2 1586044800000000 ''2020 VAT Rates'',
          change_set_row 3 1586044800000000 ''2020 CGT Rates'',
          change_set_row 4 1617580800000000 ''2021 VAT Rates'',
          change_set_row 5 1617580800000000 ''2021 CGT Rates''],
       data_frames =
         [\<lparr> f_id = 1, f_change_set_id = 1, f_entity_id = 1, f_action = POST \<rparr>,
          \<lparr> f_id = 2, f_change_set_id = 2, f_entity_id = 2, f_action = POST \<rparr>,
          \<lparr> f_id = 3, f_change_set_id = 3, f_entity_id = 3, f_action = POST \<rparr>,
          \<lparr> f_id = 4, f_change_set_id = 4, f_entity_id = 2, f_action = POST \<rparr>,
          \<lparr> f_id = 5, f_change_set_id = 5, f_entity_id = 3, f_action = POST \<rparr>] \<rparr>"

definition dedupe_test_db :: rdf_db where
  "dedupe_test_db =
     \<lparr> projection_entities =
         [\<lparr> pe_projection_id = 1, pe_entity_id = 1 \<rparr>, \<lparr> pe_projection_id = 1, pe_entity_id = 2 \<rparr>],
       change_sets = [change_set_row 1 1586044800000000 ''Everything''],
       data_frames =
         [\<lparr> f_id = 1, f_change_set_id = 1, f_entity_id = 1, f_action = POST \<rparr>,
          \<lparr> f_id = 2, f_change_set_id = 1, f_entity_id = 2, f_action = POST \<rparr>,
          \<lparr> f_id = 3, f_change_set_id = 1, f_entity_id = 2, f_action = POST \<rparr>] \<rparr>"

section \<open>Aggregates\<close>

text \<open>
  An entity as a document defines it, with the fields that identify a row, and a row of
  its side table (\<open>vat_rate_v1\<close> for VAT Rate version 1): the data frame it belongs to and
  the value of each field that is not \<open>NULL\<close>. The type of the values is left open.
\<close>

record rdf_entity =
  e_id :: int
  e_name :: string
  e_version :: int
  identified_by :: "string list"

record 'v side_row =
  rdf_frame_id :: int
  field_values :: "(string \<times> 'v) list"

text \<open>A data frame of the entity, joined with its change set and its side-table row.\<close>

record 'v frame =
  fr_effective :: timestamp
  fr_change_set_id :: int
  fr_id :: int
  fr_action :: rdf_action
  fr_fields :: "(string \<times> 'v) list"

definition entity_frames :: "rdf_db \<Rightarrow> rdf_entity \<Rightarrow> 'v side_row list \<Rightarrow> 'v frame list" where
  "entity_frames db e side =
     [\<lparr> fr_effective = effective c, fr_change_set_id = cs_id c, fr_id = f_id f,
        fr_action = f_action f, fr_fields = field_values x \<rparr>.
        f \<leftarrow> data_frames db, f_entity_id f = e_id e,
        c \<leftarrow> change_sets db, cs_id c = f_change_set_id f,
        x \<leftarrow> side, rdf_frame_id x = f_id f]"

subsection \<open>The generated function\<close>

text \<open>
  The frames whose change set is at or before the change set with the given id, in
  \<open>(effective, id)\<close> order of the change sets.
\<close>

definition up_to :: "rdf_db \<Rightarrow> int \<Rightarrow> 'v frame \<Rightarrow> bool" where
  "up_to db p_change_set_id fr =
     list_ex (\<lambda>c. cs_id c = p_change_set_id \<and>
                 (fr_effective fr, fr_change_set_id fr) \<le> (effective c, cs_id c))
       (change_sets db)"

text \<open>
  The order of the frames: the \<open>(effective, id)\<close> order of their change sets and, within
  one change set, the order of insertion, which is the order of the frame ids.
\<close>

definition frame_order :: "'v frame \<Rightarrow> timestamp \<times> int \<times> int" where
  "frame_order fr = (fr_effective fr, fr_change_set_id fr, fr_id fr)"

definition history :: "rdf_db \<Rightarrow> rdf_entity \<Rightarrow> 'v side_row list \<Rightarrow> int \<Rightarrow> 'v frame list" where
  "history db e side p_change_set_id =
     sort_key frame_order (filter (up_to db p_change_set_id) (entity_frames db e side))"

text \<open>
  The identifier tuple of a row, a value or nothing for each identifying field, and its
  other fields.
\<close>

definition identifier_tuple :: "rdf_entity \<Rightarrow> (string \<times> 'v) list \<Rightarrow> 'v option list" where
  "identifier_tuple e fs = map (map_of fs) (identified_by e)"

definition other_fields :: "rdf_entity \<Rightarrow> (string \<times> 'v) list \<Rightarrow> (string \<times> 'v) list" where
  "other_fields e fs = filter (\<lambda>(a, v). a \<notin> set (identified_by e)) fs"

text \<open>The last frame of a history for an identifier tuple, if the history has one.\<close>

definition last_frame :: "rdf_entity \<Rightarrow> 'v option list \<Rightarrow> 'v frame list \<Rightarrow> 'v frame option" where
  "last_frame e k h =
     (case filter (\<lambda>fr. identifier_tuple e (fr_fields fr) = k) h of
        [] \<Rightarrow> None
      | fr # frs \<Rightarrow> Some (last (fr # frs)))"

text \<open>
  What the last frame for an identifier tuple leaves of it: nothing when there is no
  frame or the frame is a \<open>DELETE\<close>, otherwise the other fields of the frame.
\<close>

definition latest :: "rdf_entity \<Rightarrow> 'v frame list \<Rightarrow> 'v option list \<Rightarrow> (string \<times> 'v) list option" where
  "latest e h k =
     (case last_frame e k h of
        None \<Rightarrow> None
      | Some fr \<Rightarrow> if fr_action fr = DELETE then None else Some (other_fields e (fr_fields fr)))"

text \<open>
  Modelled from the spec: the aggregate functions are generated by the DSL compiler,
  which is not among the sources. The spec gives the algorithm of
  \<open>get_<entity>_v<version>_aggregate(change_set_id)\<close>: considering only frames whose change
  set is at or before the argument in \<open>(effective, id)\<close> order, for each identifier tuple
  pick the last frame in that order; if its action is \<open>DELETE\<close>, omit the tuple; otherwise
  emit its non-identifier fields.
\<close>

definition get_aggregate ::
  "rdf_db \<Rightarrow> rdf_entity \<Rightarrow> 'v side_row list \<Rightarrow> int \<Rightarrow> ('v option list \<times> (string \<times> 'v) list) list" where
  "get_aggregate db e side p_change_set_id =
     (let h = history db e side p_change_set_id
      in concat (map (\<lambda>k. case last_frame e k h of
                            None \<Rightarrow> []
                          | Some fr \<Rightarrow> if fr_action fr = DELETE then []
                                      else [(k, other_fields e (fr_fields fr))])
                   (remdups (map (\<lambda>fr. identifier_tuple e (fr_fields fr)) h))))"

subsection \<open>The contract of an aggregate\<close>

text \<open>
  Modelled from the spec: what the spec says an aggregate returns, written without the
  definitions above. A frame is in scope of \<open>get_<entity>_aggregate(c)\<close> when it joins a
  data frame of the entity, the change set of that data frame and the side-table row of
  that data frame, and the change set is at or before the change set with id \<open>c\<close>: its
  \<open>effective\<close> is earlier, or the same and its id is not greater.
\<close>

definition in_scope :: "rdf_db \<Rightarrow> rdf_entity \<Rightarrow> 'v side_row list \<Rightarrow> int \<Rightarrow> 'v frame \<Rightarrow> bool" where
  "in_scope db e side c fr \<longleftrightarrow>
     (\<exists>f \<in> set (data_frames db). \<exists>s \<in> set (change_sets db). \<exists>x \<in> set side.
      \<exists>t \<in> set (change_sets db).
        f_entity_id f = e_id e \<and> f_change_set_id f = cs_id s \<and> rdf_frame_id x = f_id f
        \<and> cs_id t = c
        \<and> (effective s < effective t \<or> (effective s = effective t \<and> cs_id s \<le> cs_id t))
        \<and> fr = \<lparr> fr_effective = effective s, fr_change_set_id = cs_id s, fr_id = f_id f,
                  fr_action = f_action f, fr_fields = field_values x \<rparr>)"

text \<open>
  One frame comes before another when its change set does, by \<open>effective\<close> and then by
  id, or when both are of one change set and it was inserted first.
\<close>

definition comes_before :: "'v frame \<Rightarrow> 'v frame \<Rightarrow> bool" where
  "comes_before a b \<longleftrightarrow>
     fr_effective a < fr_effective b
     \<or> (fr_effective a = fr_effective b \<and> fr_change_set_id a < fr_change_set_id b)
     \<or> (fr_effective a = fr_effective b \<and> fr_change_set_id a = fr_change_set_id b
          \<and> fr_id a < fr_id b)"

text \<open>
  The declared identifier tuple of a frame, one value for each field the entity is
  identified by, and the fields of the frame that are not among them.
\<close>

definition identifiers_of :: "rdf_entity \<Rightarrow> 'v frame \<Rightarrow> 'v option list" where
  "identifiers_of e fr = [map_of (fr_fields fr) a. a \<leftarrow> identified_by e]"

definition fields_of :: "rdf_entity \<Rightarrow> 'v frame \<Rightarrow> (string \<times> 'v) list" where
  "fields_of e fr = [(a, v) \<leftarrow> fr_fields fr. a \<notin> set (identified_by e)]"

text \<open>
  The frame history of the entity up to \<open>c\<close>: a list of exactly the frames in scope in
  which no frame stands before one that comes before it.
\<close>

definition frame_history :: "rdf_db \<Rightarrow> rdf_entity \<Rightarrow> 'v side_row list \<Rightarrow> int \<Rightarrow> 'v frame list \<Rightarrow> bool" where
  "frame_history db e side c h \<longleftrightarrow>
     set h = {fr. in_scope db e side c fr} \<and> sorted_wrt (\<lambda>a b. \<not> comes_before b a) h"

text \<open>
  The fold of a frame history, keyed by the identifier tuple: a \<open>POST\<close> sets the fields of
  its tuple, a \<open>DELETE\<close> removes the tuple.
\<close>

definition post_or_delete ::
  "rdf_entity \<Rightarrow> 'v frame \<Rightarrow> ('v option list \<rightharpoonup> (string \<times> 'v) list)
     \<Rightarrow> ('v option list \<rightharpoonup> (string \<times> 'v) list)" where
  "post_or_delete e fr m =
     (case fr_action fr of
        POST \<Rightarrow> m(identifiers_of e fr \<mapsto> fields_of e fr)
      | DELETE \<Rightarrow> m(identifiers_of e fr := None))"

definition fold_history ::
  "rdf_entity \<Rightarrow> 'v frame list \<Rightarrow> ('v option list \<rightharpoonup> (string \<times> 'v) list)" where
  "fold_history e h = fold (post_or_delete e) h Map.empty"

subsection \<open>Sample data\<close>

text \<open>
  The data of the DSL test in which the most recent frame for the zero rate is a
  \<open>DELETE\<close>: VAT Rate version 1, identified by its type, three change sets with three
  frames each. The values are the text of the document; the \<open>DELETE\<close> frame gives no rate.
\<close>

definition vat_rate_v1 :: rdf_entity where
  "vat_rate_v1 = \<lparr> e_id = 1, e_name = ''VAT Rate'', e_version = 1, identified_by = [''type''] \<rparr>"

definition vat_rate_db :: rdf_db where
  "vat_rate_db =
     \<lparr> projection_entities = [\<lparr> pe_projection_id = 1, pe_entity_id = 1 \<rparr>],
       change_sets =
         [change_set_row 1 1586044800000000 ''2020 VAT Rates'',
          change_set_row 2 1617580800000000 ''2021 VAT Rates'',
          change_set_row 3 1649116800000000 ''2022 VAT Rates''],
       data_frames =
         [\<lparr> f_id = 1, f_change_set_id = 1, f_entity_id = 1, f_action = POST \<rparr>,
          \<lparr> f_id = 2, f_change_set_id = 1, f_entity_id = 1, f_action = POST \<rparr>,
          \<lparr> f_id = 3, f_change_set_id = 1, f_entity_id = 1, f_action = POST \<rparr>,
          \<lparr> f_id = 4, f_change_set_id = 2, f_entity_id = 1, f_action = POST \<rparr>,
          \<lparr> f_id = 5, f_change_set_id = 2, f_entity_id = 1, f_action = POST \<rparr>,
          \<lparr> f_id = 6, f_change_set_id = 2, f_entity_id = 1, f_action = POST \<rparr>,
          \<lparr> f_id = 7, f_change_set_id = 3, f_entity_id = 1, f_action = POST \<rparr>,
          \<lparr> f_id = 8, f_change_set_id = 3, f_entity_id = 1, f_action = POST \<rparr>,
          \<lparr> f_id = 9, f_change_set_id = 3, f_entity_id = 1, f_action = DELETE \<rparr>] \<rparr>"

definition vat_rate_v1_rows :: "string side_row list" where
  "vat_rate_v1_rows =
     [\<lparr> rdf_frame_id = 1, field_values = [(''type'', ''standard''), (''rate'', ''0.10'')] \<rparr>,
      \<lparr> rdf_frame_id = 2, field_values = [(''type'', ''reduced''), (''rate'', ''0.05'')] \<rparr>,
      \<lparr> rdf_frame_id = 3, field_values = [(''type'', ''zero''), (''rate'', ''0'')] \<rparr>,
      \<lparr> rdf_frame_id = 4, field_values = [(''type'', ''standard''), (''rate'', ''0.125'')] \<rparr>,
      \<lparr> rdf_frame_id = 5, field_values = [(''type'', ''reduced''), (''rate'', ''0.07'')] \<rparr>,
      \<lparr> rdf_frame_id = 6, field_values = [(''type'', ''zero''), (''rate'', ''0'')] \<rparr>,
      \<lparr> rdf_frame_id = 7, field_values = [(''type'', ''standard''), (''rate'', ''0.15'')] \<rparr>,
      \<lparr> rdf_frame_id = 8, field_values = [(''type'', ''reduced''), (''rate'', ''0.10'')] \<rparr>,
      \<lparr> rdf_frame_id = 9, field_values = [(''type'', ''zero'')] \<rparr>]"

text \<open>
  A history entered out of order: VAT Rate version 2, identified by type and country. The
  change set with id 2 takes effect before the one with id 1, and those with ids 1 and 3
  take effect at the same time. The data frame with id 6 is of another entity.
\<close>

definition vat_rate_v2 :: rdf_entity where
  "vat_rate_v2 = \<lparr> e_id = 2, e_name = ''VAT Rate'', e_version = 2,
                   identified_by = [''type'', ''country''] \<rparr>"

definition backdated_db :: rdf_db where
  "backdated_db =
     \<lparr> projection_entities = [\<lparr> pe_projection_id = 1, pe_entity_id = 2 \<rparr>],
       change_sets =
         [change_set_row 1 200 ''Budget'',
          change_set_row 2 100 ''Backdated rates'',
          change_set_row 3 200 ''Budget amendment''],
       data_frames =
         [\<lparr> f_id = 1, f_change_set_id = 1, f_entity_id = 2, f_action = POST \<rparr>,
          \<lparr> f_id = 2, f_change_set_id = 2, f_entity_id = 2, f_action = POST \<rparr>,
          \<lparr> f_id = 3, f_change_set_id = 2, f_entity_id = 2, f_action = POST \<rparr>,
          \<lparr> f_id = 4, f_change_set_id = 3, f_entity_id = 2, f_action = DELETE \<rparr>,
          \<lparr> f_id = 5, f_change_set_id = 1, f_entity_id = 2, f_action = POST \<rparr>,
          \<lparr> f_id = 6, f_change_set_id = 2, f_entity_id = 1, f_action = POST \<rparr>] \<rparr>"

definition vat_rate_v2_rows :: "string side_row list" where
  "vat_rate_v2_rows =
     [\<lparr> rdf_frame_id = 1,
        field_values = [(''type'', ''standard''), (''country'', ''uk''), (''rate'', ''0.20'')] \<rparr>,
      \<lparr> rdf_frame_id = 2,
        field_values = [(''type'', ''standard''), (''country'', ''uk''), (''rate'', ''0.10'')] \<rparr>,
      \<lparr> rdf_frame_id = 3,
        field_values = [(''type'', ''standard''), (''country'', ''ie''), (''rate'', ''0.23'')] \<rparr>,
      \<lparr> rdf_frame_id = 4,
        field_values = [(''type'', ''standard''), (''country'', ''ie'')] \<rparr>,
      \<lparr> rdf_frame_id = 5,
        field_values = [(''type'', ''reduced''), (''country'', ''uk''), (''rate'', ''0.05'')] \<rparr>]"

section \<open>Documents of the DSL and their validation\<close>














subsection \<open>What a message has to say\<close>





subsection \<open>The instructions\<close>



















section \<open>Properties of the notification mechanism\<close>

subsection \<open>The table constraints are kept\<close>

lemma overflows_iff:
  "overflows i rows \<longleftrightarrow>
     (\<exists>n \<in> set rows. nid n = i \<and> (\<exists>a. attempts n = Some a \<and> 2147483647 \<le> a))"
  by (auto simp: overflows_def list_ex_iff split: option.splits)

lemma fail_Inr:
  assumes "fby_fail_notification i s e now rows = Inr rows'"
  shows "rows' = map (\<lambda>n. if nid n = i
                         then n\<lparr> attempts := sql_plus_one (attempts n), scheduled_for := s,
                                 last_attempted := Some now, last_error := Some e \<rparr>
                         else n) rows"
  using assms by (simp add: fby_fail_notification_def split: if_splits)

lemma fail_nid: "fby_fail_notification i s e now rows = Inr rows' \<Longrightarrow> map nid rows' = map nid rows"
  by (drule fail_Inr) (simp add: comp_def cong: map_cong)

lemma fail_uniq_key:
  "fby_fail_notification i s e now rows = Inr rows' \<Longrightarrow> map uniq_key rows' = map uniq_key rows"
  by (drule fail_Inr) (simp add: comp_def uniq_key_def cong: map_cong)

lemma fail_status: "fby_fail_notification i s e now rows = Inr rows' \<Longrightarrow> map status rows' = map status rows"
  by (drule fail_Inr) (simp add: comp_def cong: map_cong)

lemma fail_pkey:
  "fby_notification_pkey rows \<Longrightarrow> fby_fail_notification i s e now rows = Inr rows' \<Longrightarrow>
   fby_notification_pkey rows'"
  by (simp add: fby_notification_pkey_def fail_nid)

lemma fail_uniq:
  "fby_notification_hook_id_projection_id_status_uniq rows \<Longrightarrow>
   fby_fail_notification i s e now rows = Inr rows' \<Longrightarrow>
   fby_notification_hook_id_projection_id_status_uniq rows'"
  by (simp add: fby_notification_hook_id_projection_id_status_uniq_def fail_uniq_key)

lemma pass_Inr:
  assumes "fby_pass_notification i now rows = Inr rows'"
  shows "rows' = map (\<lambda>n. if nid n = i
                         then n\<lparr> attempts := sql_plus_one (attempts n), status := OK,
                                 last_attempted := Some now, last_error := None \<rparr>
                         else n)
                   (filter (\<lambda>n. \<not> (Some (hook_id n) = map_option hook_id (find (\<lambda>n. nid n = i) rows)
                                     \<and> status n = OK)) rows)"
  using assms by (simp add: fby_pass_notification_def Let_def split: if_splits)

lemma pass_nid:
  "fby_pass_notification i now rows = Inr rows' \<Longrightarrow> map nid rows' =
   map nid (filter (\<lambda>n. \<not> (Some (hook_id n) = map_option hook_id (find (\<lambda>n. nid n = i) rows) \<and> status n = OK)) rows)"
  by (drule pass_Inr) (simp add: comp_def cong: map_cong)

lemma pass_pkey:
  "fby_notification_pkey rows \<Longrightarrow> fby_pass_notification i now rows = Inr rows' \<Longrightarrow>
   fby_notification_pkey rows'"
  unfolding fby_notification_pkey_def by (simp add: pass_nid distinct_map_filter)

lemma find_pkey:
  assumes "distinct (map nid rows)" "n \<in> set rows"
  shows "find (\<lambda>m. nid m = nid n) rows = Some n"
  using assms by (induction rows) (auto simp: rev_image_eqI)

lemma pass_uniq:
  assumes pk: "fby_notification_pkey rows"
      and un: "fby_notification_hook_id_projection_id_status_uniq rows"
      and r: "fby_pass_notification i now rows = Inr rows'"
  shows "fby_notification_hook_id_projection_id_status_uniq rows'"
proof -
  define v where "v = map_option hook_id (find (\<lambda>n. nid n = i) rows)"
  define kept where "kept = filter (\<lambda>n. \<not> (Some (hook_id n) = v \<and> status n = OK)) rows"
  define f :: "fby_notification \<Rightarrow> fby_notification" where "f = (\<lambda>n. if nid n = i
                   then n\<lparr> attempts := sql_plus_one (attempts n), status := OK,
                           last_attempted := Some now, last_error := None \<rparr>
                   else n)"
  have res: "rows' = map f kept"
    using pass_Inr[OF r] by (simp add: v_def kept_def f_def)
  have dk: "distinct (map uniq_key kept)"
    using un unfolding kept_def fby_notification_hook_id_projection_id_status_uniq_def
    by (rule distinct_map_filter)
  have hook: "Some (hook_id x) = v" if "x \<in> set rows" "nid x = i" for x
  proof -
    have "find (\<lambda>m. nid m = nid x) rows = Some x"
      using pk that(1) by (simp add: find_pkey fby_notification_pkey_def)
    then show ?thesis using that(2) by (simp add: v_def)
  qed
  have inj: "inj_on (\<lambda>n. uniq_key (f n)) (set kept)"
  proof (rule inj_onI)
    fix x y assume x: "x \<in> set kept" and y: "y \<in> set kept" and e: "uniq_key (f x) = uniq_key (f y)"
    have xr: "x \<in> set rows" and yr: "y \<in> set rows" using x y by (simp_all add: kept_def)
    consider "nid x = i" "nid y = i" | "nid x = i" "nid y \<noteq> i" | "nid x \<noteq> i" "nid y = i"
      | "nid x \<noteq> i" "nid y \<noteq> i" by blast
    then show "x = y"
    proof cases
      case 1
      then have "nid x = nid y" by simp
      with pk xr yr show ?thesis
        by (metis fby_notification_pkey_def find_pkey option.inject)
    next
      case 2
      then have "hook_id y = hook_id x" "status y = OK" using e by (simp_all add: f_def uniq_key_def)
      with hook[OF xr 2(1)] y show ?thesis by (simp add: kept_def)
    next
      case 3
      then have "hook_id x = hook_id y" "status x = OK" using e by (simp_all add: f_def uniq_key_def)
      with hook[OF yr 3(2)] x show ?thesis by (simp add: kept_def)
    next
      case 4
      then have "uniq_key x = uniq_key y" using e by (simp add: f_def)
      with dk x y show ?thesis by (meson distinct_map inj_onD)
    qed
  qed
  have "distinct kept" using dk by (simp add: distinct_map)
  with inj have "distinct (map (\<lambda>n. uniq_key (f n)) kept)" by (simp add: distinct_map)
  then show ?thesis
    by (simp add: res fby_notification_hook_id_projection_id_status_uniq_def comp_def)
qed

lemma do_update_key: "uniq_key (do_update ex n) = uniq_key n"
  by (simp add: do_update_def uniq_key_def)

lemma schedule_uniq:
  assumes un: "fby_notification_hook_id_projection_id_status_uniq (notifications db)"
      and r: "fby_schedule_notification now h p db = Inr db'"
  shows "fby_notification_hook_id_projection_id_status_uniq (notifications db')"
proof (cases "uniq_key (excluded_row (fby_notification_id_seq db + 1) now h p) \<in> set (map uniq_key (notifications db))")
  case True
  with r have "map uniq_key (notifications db') = map uniq_key (notifications db)"
    by (auto simp: fby_schedule_notification_def Let_def do_update_key split: if_splits)
  with un show ?thesis by (simp add: fby_notification_hook_id_projection_id_status_uniq_def)
next
  case False
  with r have "notifications db' = notifications db @ [excluded_row (fby_notification_id_seq db + 1) now h p]"
    by (auto simp: fby_schedule_notification_def Let_def split: if_splits)
  with un False show ?thesis by (simp add: fby_notification_hook_id_projection_id_status_uniq_def)
qed

lemma schedule_pkey:
  assumes pk: "fby_notification_pkey (notifications db)"
      and un: "fby_notification_hook_id_projection_id_status_uniq (notifications db)"
      and r: "fby_schedule_notification now h p db = Inr db'"
  shows "fby_notification_pkey (notifications db')"
proof (cases "uniq_key (excluded_row (fby_notification_id_seq db + 1) now h p) \<in> set (map uniq_key (notifications db))")
  case True
  define ex where "ex = excluded_row (fby_notification_id_seq db + 1) now h p"
  define g where "g = (\<lambda>n. if uniq_key n = uniq_key ex then do_update ex n else n)"
  from True r have fresh: "nid ex \<notin> set (map nid (filter (\<lambda>n. uniq_key n \<noteq> uniq_key ex) (notifications db)))"
    and res: "notifications db' = map g (notifications db)"
    by (auto simp: fby_schedule_notification_def Let_def ex_def g_def excluded_row_def split: if_splits)
  have "inj_on (\<lambda>n. nid (g n)) (set (notifications db))"
  proof (rule inj_onI)
    fix x y assume x: "x \<in> set (notifications db)" and y: "y \<in> set (notifications db)"
      and e: "nid (g x) = nid (g y)"
    show "x = y"
    proof (cases "uniq_key x = uniq_key ex")
      case kx: True
      show ?thesis
      proof (cases "uniq_key y = uniq_key ex")
        case True
        with kx un x y show ?thesis
          by (metis distinct_map fby_notification_hook_id_projection_id_status_uniq_def inj_onD)
      next
        case False
        with kx e have "nid y = nid ex" by (simp add: g_def do_update_def)
        moreover have "nid y \<in> set (map nid (filter (\<lambda>n. uniq_key n \<noteq> uniq_key ex) (notifications db)))"
          using False y by simp
        ultimately show ?thesis using fresh by simp
      qed
    next
      case kx: False
      show ?thesis
      proof (cases "uniq_key y = uniq_key ex")
        case True
        with kx e have "nid x = nid ex" by (simp add: g_def do_update_def)
        moreover have "nid x \<in> set (map nid (filter (\<lambda>n. uniq_key n \<noteq> uniq_key ex) (notifications db)))"
          using kx x by simp
        ultimately show ?thesis using fresh by simp
      next
        case False
        with kx e have "nid x = nid y" by (simp add: g_def)
        with pk x y show ?thesis
          by (metis distinct_map fby_notification_pkey_def inj_onD)
      qed
    qed
  qed
  moreover have "distinct (notifications db)" using pk by (simp add: fby_notification_pkey_def distinct_map)
  ultimately show ?thesis by (simp add: res fby_notification_pkey_def distinct_map comp_def)
next
  case False
  with r have "notifications db' = notifications db @ [excluded_row (fby_notification_id_seq db + 1) now h p]"
     and "fby_notification_id_seq db + 1 \<notin> set (map nid (notifications db))"
    by (auto simp: fby_schedule_notification_def Let_def split: if_splits)
  with pk show ?thesis by (simp add: fby_notification_pkey_def excluded_row_def)
qed




subsection \<open>Dequeuing\<close>

lemma replaced_in_map: "x \<in> set xs \<Longrightarrow> v \<in> set (map (\<lambda>m. if m = x then v else m) xs)"
  by (induction xs) auto


lemma find_Some_D: "find P xs = Some x \<Longrightarrow> x \<in> set xs \<and> P x"
  by (induction xs) (auto split: if_splits)

lemma get_next_is_due:
  assumes "fby_get_next_notification mx now locked rows = Some r"
  shows "\<exists>n \<in> set rows. r = select_row n \<and> is_due mx now locked n"
proof -
  from assms obtain n where "find (is_due mx now locked) rows = Some n" "r = select_row n"
    by (auto simp: fby_get_next_notification_def)
  then show ?thesis using find_Some_D by fastforce
qed

lemma pkey_same_id: "fby_notification_pkey rows \<Longrightarrow> x \<in> set rows \<Longrightarrow> y \<in> set rows \<Longrightarrow> nid x = nid y \<Longrightarrow> x = y"
  by (metis distinct_map fby_notification_pkey_def inj_onD)

text \<open>
  Claim C10. Whenever \<open>fby_get_next_notification\<close> returns a row, the row comes from a
  \<open>PENDING\<close> notification of the table with the same id and hook, the stored \<open>attempts\<close>
  of that notification is not \<open>NULL\<close>, and the \<open>attempts\<close> returned is the stored value
  plus one: the number of the attempt about to be made.
\<close>

theorem get_next_attempts_is_stored_plus_one:
  assumes "fby_get_next_notification mx now locked rows = Some r"
  shows "\<exists>n a. n \<in> set rows \<and> status n = PENDING \<and> nid n = next_id r \<and> hook_id n = next_hook_id r
            \<and> attempts n = Some a \<and> next_attempts r = Some (a + 1)"
proof -
  from get_next_is_due[OF assms] obtain n where n: "n \<in> set rows" "r = select_row n" "is_due mx now locked n"
    by blast
  from n(3) obtain a where "attempts n = Some a" "status n = PENDING"
    by (auto simp: is_due_def sql_less_def split: option.splits)
  with n show ?thesis by (auto simp: select_row_def sql_plus_one_def)
qed

theorem get_next_attempts_is_stored_plus_one_witness:
  "fby_get_next_notification 3 100 [] [row1] = Some \<lparr> next_id = 1, next_hook_id = 7, next_attempts = Some 3 \<rparr>
   \<and> (\<exists>n a. n \<in> set [row1] \<and> status n = PENDING \<and> nid n = 1 \<and> hook_id n = 7 \<and> attempts n = Some a
          \<and> Some 3 = Some (a + 1))"
proof -
  have h: "fby_get_next_notification 3 100 [] [row1] = Some \<lparr> next_id = 1, next_hook_id = 7, next_attempts = Some 3 \<rparr>"
    by (simp add: fby_get_next_notification_def is_due_def sql_less_def select_row_def sql_plus_one_def row1_def)
  from get_next_attempts_is_stored_plus_one[OF h] h show ?thesis by simp
qed

subsection \<open>Failing a notification\<close>

lemma overflows_pkey:
  assumes pk: "fby_notification_pkey rows" and n: "n \<in> set rows"
  shows "overflows (nid n) rows \<longleftrightarrow> (\<exists>a. attempts n = Some a \<and> 2147483647 \<le> a)"
proof -
  have "m = n" if "m \<in> set rows" "nid m = nid n" for m
    using pk that(1) n that(2) by (rule pkey_same_id)
  then show ?thesis using n unfolding overflows_iff by blast
qed

lemma fail_as_map:
  assumes pk: "fby_notification_pkey rows" and n: "n \<in> set rows"
      and a: "\<not> (\<exists>a. attempts n = Some a \<and> 2147483647 \<le> a)"
  shows "fby_fail_notification (nid n) s e now rows =
     Inr (map (\<lambda>m. if m = n then n\<lparr> attempts := sql_plus_one (attempts n), scheduled_for := s,
                      last_attempted := Some now, last_error := Some e \<rparr> else m) rows)"
proof -
  have "map (\<lambda>m. if nid m = nid n
              then m\<lparr> attempts := sql_plus_one (attempts m), scheduled_for := s,
                      last_attempted := Some now, last_error := Some e \<rparr>
              else m) rows
      = map (\<lambda>m. if m = n then n\<lparr> attempts := sql_plus_one (attempts n), scheduled_for := s,
                      last_attempted := Some now, last_error := Some e \<rparr> else m) rows"
  proof (rule map_cong[OF refl])
    fix m assume "m \<in> set rows"
    with pk n have "nid m = nid n \<longleftrightarrow> m = n" using pkey_same_id by blast
    then show "(if nid m = nid n
              then m\<lparr> attempts := sql_plus_one (attempts m), scheduled_for := s,
                      last_attempted := Some now, last_error := Some e \<rparr>
              else m) = (if m = n then n\<lparr> attempts := sql_plus_one (attempts n), scheduled_for := s,
                      last_attempted := Some now, last_error := Some e \<rparr> else m)"
      by auto
  qed
  moreover have "\<not> overflows (nid n) rows" using a overflows_pkey[OF pk n] by simp
  ultimately show ?thesis by (simp add: fby_fail_notification_def)
qed

lemma poisoned_never_returned:
  assumes pk: "fby_notification_pkey rows" and m: "m \<in> set rows" and a: "\<not> sql_less (attempts m) mx"
    and r: "fby_get_next_notification mx now locked rows = Some r"
  shows "next_id r \<noteq> nid m"
proof
  assume e: "next_id r = nid m"
  from get_next_is_due[OF r] obtain n where n: "n \<in> set rows" "r = select_row n" "is_due mx now locked n"
    by blast
  then have "nid n = nid m" using e by (simp add: select_row_def)
  with pk n(1) m have "n = m" by (rule pkey_same_id)
  with n(3) a show False by (simp add: is_due_def)
qed

text \<open>
  Claim C5 does not hold for every notification. The column \<open>attempts\<close> is a 32-bit
  \<open>INTEGER\<close> that may be \<open>NULL\<close>. On a row whose counter is 2147483647 the \<open>UPDATE\<close> of
  \<open>fby_fail_notification\<close> raises \<open>integer out of range\<close>: nothing is incremented, no
  error text is recorded and the row is not rescheduled. On a row whose counter is \<open>NULL\<close>
  the routine succeeds and the counter is \<open>NULL\<close> afterwards.
\<close>

theorem fail_notification_counter_counterexample:
  "fby_fail_notification 1 400 ''boom'' 300 [row_max] = Inl NUMERIC_VALUE_OUT_OF_RANGE
   \<and> fby_fail_notification 1 400 ''boom'' 300 [row_null] =
       Inr [\<lparr> nid = 1, hook_id = 7, projection_id = 3, scheduled_for = 400, attempts = None,
              status = PENDING, last_attempted = Some 300, last_error = Some ''boom'' \<rparr>]"
  by (simp add: fby_fail_notification_def overflows_def sql_plus_one_def row_max_def row_null_def)

text \<open>
  Claim C5, amended. Let \<open>n\<close> be a row of a table with distinct ids. If the counter of \<open>n\<close>
  is a number \<open>a\<close> below 2147483647, \<open>fby_fail_notification\<close> replaces \<open>n\<close> by \<open>n\<close> with
  \<open>attempts = a + 1\<close>, the new \<open>scheduled_for\<close>, \<open>last_attempted = now()\<close> and the error
  text in \<open>last_error\<close>, and changes no other row. If the counter is 2147483647 or more, the
  routine raises \<open>integer out of range\<close>. If the counter is \<open>NULL\<close>, it stays \<open>NULL\<close> and the
  other three columns are set. Whenever the routine succeeds, every row keeps its status,
  so a \<open>PENDING\<close> row stays \<open>PENDING\<close>. \<open>fby_get_next_notification\<close> returns only the id
  and hook of a row that is \<open>PENDING\<close>, due, and has a counter below the maximum. So it
  never returns a row whose counter has reached the maximum, and never the failed row once
  the failure brings its counter to the maximum.
\<close>

theorem fail_notification_retries_until_poisoned:
  assumes pk: "fby_notification_pkey rows" and n: "n \<in> set rows"
  shows "(\<forall>a. attempts n = Some a \<and> a < 2147483647 \<longrightarrow>
            fby_fail_notification (nid n) s e now rows =
              Inr (map (\<lambda>m. if m = n then n\<lparr> attempts := Some (a + 1), scheduled_for := s,
                                          last_attempted := Some now, last_error := Some e \<rparr>
                             else m) rows))
       \<and> (\<forall>a. attempts n = Some a \<and> 2147483647 \<le> a \<longrightarrow>
            fby_fail_notification (nid n) s e now rows = Inl NUMERIC_VALUE_OUT_OF_RANGE)
       \<and> (attempts n = None \<longrightarrow>
            fby_fail_notification (nid n) s e now rows =
              Inr (map (\<lambda>m. if m = n then n\<lparr> scheduled_for := s, last_attempted := Some now,
                                          last_error := Some e \<rparr>
                             else m) rows))
       \<and> (\<forall>rows'. fby_fail_notification (nid n) s e now rows = Inr rows' \<longrightarrow>
            map status rows' = map status rows)
       \<and> (\<forall>r. fby_get_next_notification mx now' locked rows = Some r \<longrightarrow>
             (\<exists>m \<in> set rows. next_id r = nid m \<and> next_hook_id r = hook_id m \<and> status m = PENDING
                 \<and> scheduled_for m \<le> now' \<and> (\<exists>a. attempts m = Some a \<and> a < mx)))
       \<and> (\<forall>a r. attempts n = Some a \<and> mx \<le> a \<and> fby_get_next_notification mx now' locked rows = Some r
             \<longrightarrow> next_id r \<noteq> nid n)
       \<and> (\<forall>a rows' r. attempts n = Some a \<and> mx \<le> a + 1
                \<and> fby_fail_notification (nid n) s e now rows = Inr rows'
                \<and> fby_get_next_notification mx now' locked rows' = Some r
             \<longrightarrow> next_id r \<noteq> nid n)"
proof (intro conjI allI impI)
  fix a assume a: "attempts n = Some a \<and> a < 2147483647"
  then have "\<not> (\<exists>a. attempts n = Some a \<and> 2147483647 \<le> a)" by simp
  from fail_as_map[OF pk n this, of s e now] a
  show "fby_fail_notification (nid n) s e now rows =
              Inr (map (\<lambda>m. if m = n then n\<lparr> attempts := Some (a + 1), scheduled_for := s,
                                          last_attempted := Some now, last_error := Some e \<rparr>
                             else m) rows)"
    by (simp add: sql_plus_one_def)
next
  fix a assume "attempts n = Some a \<and> 2147483647 \<le> a"
  then have "overflows (nid n) rows" using overflows_pkey[OF pk n] by blast
  then show "fby_fail_notification (nid n) s e now rows = Inl NUMERIC_VALUE_OUT_OF_RANGE"
    by (simp add: fby_fail_notification_def)
next
  assume a: "attempts n = None"
  then have "\<not> (\<exists>a. attempts n = Some a \<and> 2147483647 \<le> a)" by simp
  from fail_as_map[OF pk n this, of s e now] a
  show "fby_fail_notification (nid n) s e now rows =
              Inr (map (\<lambda>m. if m = n then n\<lparr> scheduled_for := s, last_attempted := Some now,
                                          last_error := Some e \<rparr>
                             else m) rows)"
    by (simp add: sql_plus_one_def)
next
  fix rows' assume "fby_fail_notification (nid n) s e now rows = Inr rows'"
  then show "map status rows' = map status rows" by (rule fail_status)
next
  fix r assume "fby_get_next_notification mx now' locked rows = Some r"
  from get_next_is_due[OF this]
  show "\<exists>m \<in> set rows. next_id r = nid m \<and> next_hook_id r = hook_id m \<and> status m = PENDING
                 \<and> scheduled_for m \<le> now' \<and> (\<exists>a. attempts m = Some a \<and> a < mx)"
    by (auto simp: is_due_def sql_less_def select_row_def split: option.splits)
next
  fix a r assume "attempts n = Some a \<and> mx \<le> a \<and> fby_get_next_notification mx now' locked rows = Some r"
  then show "next_id r \<noteq> nid n"
    using poisoned_never_returned[OF pk n, of mx now' locked r] by (simp add: sql_less_def)
next
  fix a rows' r
  assume h: "attempts n = Some a \<and> mx \<le> a + 1
         \<and> fby_fail_notification (nid n) s e now rows = Inr rows'
         \<and> fby_get_next_notification mx now' locked rows' = Some r"
  let ?n' = "n\<lparr> attempts := sql_plus_one (attempts n), scheduled_for := s,
                 last_attempted := Some now, last_error := Some e \<rparr>"
  have no: "\<not> overflows (nid n) rows" using h by (auto simp: fby_fail_notification_def split: if_splits)
  then have "\<not> (\<exists>a. attempts n = Some a \<and> 2147483647 \<le> a)" using overflows_pkey[OF pk n] by simp
  from fail_as_map[OF pk n this, of s e now] h
  have res: "rows' = map (\<lambda>m. if m = n then ?n' else m) rows" by simp
  have "?n' \<in> set rows'" unfolding res using n by (rule replaced_in_map)
  moreover have "\<not> sql_less (attempts ?n') mx" using h by (simp add: sql_less_def sql_plus_one_def)
  moreover have "fby_notification_pkey rows'" using pk h fail_pkey by blast
  ultimately have "next_id r \<noteq> nid ?n'"
    using poisoned_never_returned h by blast
  then show "next_id r \<noteq> nid n" by simp
qed

theorem fail_notification_retries_until_poisoned_witness:
  "fby_notification_pkey [row1] \<and> row1 \<in> set [row1] \<and> attempts row1 = Some 2
   \<and> fby_fail_notification 1 400 ''boom'' 300 [row1] =
       Inr [\<lparr> nid = 1, hook_id = 7, projection_id = 3, scheduled_for = 400, attempts = Some 3,
              status = PENDING, last_attempted = Some 300, last_error = Some ''boom'' \<rparr>]
   \<and> fby_get_next_notification 3 200 [] [row1] =
       Some \<lparr> next_id = 1, next_hook_id = 7, next_attempts = Some 3 \<rparr>
   \<and> fby_get_next_notification 3 500 []
        [\<lparr> nid = 1, hook_id = 7, projection_id = 3, scheduled_for = 400, attempts = Some 3,
              status = PENDING, last_attempted = Some 300, last_error = Some ''boom'' \<rparr>] = None"
proof -
  let ?n' = "\<lparr> nid = 1, hook_id = 7, projection_id = 3, scheduled_for = 400, attempts = Some 3,
              status = PENDING, last_attempted = Some 300, last_error = Some ''boom'' \<rparr>"
  have h1: "fby_notification_pkey [row1]" by (simp add: fby_notification_pkey_def)
  have h2: "row1 \<in> set [row1]" by simp
  have a: "attempts row1 = Some 2" and i: "nid row1 = 1" by (simp_all add: row1_def)
  note t = fail_notification_retries_until_poisoned[OF h1 h2, of 400 "''boom''" 300 3 500 "[]"]
  from t a i have c1: "fby_fail_notification 1 400 ''boom'' 300 [row1] = Inr [?n']"
    by (simp add: row1_def)
  have c2: "fby_get_next_notification 3 200 [] [row1] =
       Some \<lparr> next_id = 1, next_hook_id = 7, next_attempts = Some 3 \<rparr>"
    by (simp add: fby_get_next_notification_def is_due_def sql_less_def select_row_def
          sql_plus_one_def row1_def)
  have c3: "fby_get_next_notification 3 500 [] [?n'] = None"
  proof (cases "fby_get_next_notification 3 500 [] [?n']")
    case None
    then show ?thesis .
  next
    case (Some r)
    with t a i c1 have "next_id r \<noteq> 1" by simp
    moreover from get_next_is_due[OF Some] have "r = select_row ?n'" by simp
    then have "next_id r = 1" by (simp add: select_row_def)
    ultimately show ?thesis by simp
  qed
  from h1 h2 a c1 c2 c3 show ?thesis by blast
qed

subsection \<open>Passing a notification\<close>

text \<open>
  Claim C9 does not hold for every notification id. The \<open>DELETE\<close> of
  \<open>fby_pass_notification\<close> runs before the \<open>UPDATE\<close> and removes every \<open>OK\<close> row of the
  hook, the row with the given id included: passing a notification that is already \<open>OK\<close>
  deletes it, and no row is left to carry an incremented counter. On a \<open>PENDING\<close> row whose
  counter is 2147483647 the routine raises \<open>integer out of range\<close> and marks nothing; on
  one whose counter is \<open>NULL\<close> the row is marked \<open>OK\<close> and the counter is still \<open>NULL\<close>.
\<close>

theorem pass_notification_on_ok_row_counterexample:
  "fby_pass_notification 1 150 [row_ok] = Inr []
   \<and> fby_pass_notification 1 150 [row_max] = Inl NUMERIC_VALUE_OUT_OF_RANGE
   \<and> fby_pass_notification 1 150 [row_null] =
       Inr [\<lparr> nid = 1, hook_id = 7, projection_id = 3, scheduled_for = 100, attempts = None,
              status = OK, last_attempted = Some 150, last_error = None \<rparr>]"
  by (simp add: fby_pass_notification_def overflows_def sql_plus_one_def row_ok_def row_max_def
        row_null_def)

lemma filter_key_singleton:
  assumes "distinct (map g xs)" "x \<in> set xs"
  shows "filter (\<lambda>m. g m = g x) xs = [x]"
  using assms
proof (induction xs)
  case Nil
  then show ?case by simp
next
  case (Cons y ys)
  show ?case
  proof (cases "y = x")
    case True
    with Cons.prems have "\<forall>m \<in> set ys. g m \<noteq> g x" by (auto simp: image_iff)
    then have "filter (\<lambda>m. g m = g x) ys = []" by (simp add: filter_empty_conv)
    with True show ?thesis by simp
  next
    case False
    with Cons.prems have "x \<in> set ys" "g y \<noteq> g x" by (auto simp: image_iff)
    with Cons show ?thesis by simp
  qed
qed

lemma filter_map_same:
  assumes "\<And>x. P (f x) = P x"
  shows "filter P (map f xs) = map f (filter P xs)"
  by (induction xs) (simp_all add: assms)

lemma pass_as_map:
  assumes pk: "fby_notification_pkey rows" and n: "n \<in> set rows"
  shows "fby_pass_notification (nid n) now rows =
     (if status n = PENDING \<and> (\<exists>a. attempts n = Some a \<and> 2147483647 \<le> a)
      then Inl NUMERIC_VALUE_OUT_OF_RANGE
      else Inr (map (\<lambda>x. if nid x = nid n
                   then x\<lparr> attempts := sql_plus_one (attempts x), status := OK,
                           last_attempted := Some now, last_error := None \<rparr>
                   else x)
                (filter (\<lambda>x. \<not> (hook_id x = hook_id n \<and> status x = OK)) rows)))"
proof -
  have fnd: "find (\<lambda>x. nid x = nid n) rows = Some n"
    using pk n by (simp add: find_pkey fby_notification_pkey_def)
  let ?kept = "filter (\<lambda>x. \<not> (hook_id x = hook_id n \<and> status x = OK)) rows"
  have "overflows (nid n) ?kept \<longleftrightarrow>
      status n = PENDING \<and> (\<exists>a. attempts n = Some a \<and> 2147483647 \<le> a)"
  proof
    assume "overflows (nid n) ?kept"
    then obtain m a where m: "m \<in> set ?kept" "nid m = nid n" "attempts m = Some a" "2147483647 \<le> a"
      unfolding overflows_iff by blast
    then have "m \<in> set rows" by simp
    with pk have "m = n" using n m(2) by (rule pkey_same_id)
    with m show "status n = PENDING \<and> (\<exists>a. attempts n = Some a \<and> 2147483647 \<le> a)"
      by (cases "status n") auto
  next
    assume "status n = PENDING \<and> (\<exists>a. attempts n = Some a \<and> 2147483647 \<le> a)"
    moreover from this have "n \<in> set ?kept" using n by simp
    ultimately show "overflows (nid n) ?kept" unfolding overflows_iff by blast
  qed
  then show ?thesis by (simp add: fby_pass_notification_def Let_def fnd)
qed

lemma pass_split:
  fixes now :: timestamp
  assumes pk: "fby_notification_pkey rows" and n: "n \<in> set rows"
  defines "f \<equiv> \<lambda>x. if nid x = nid n
                   then x\<lparr> attempts := sql_plus_one (attempts x), status := OK,
                           last_attempted := Some now, last_error := None \<rparr>
                   else x"
  defines "rows' \<equiv> map f (filter (\<lambda>x. \<not> (hook_id x = hook_id n \<and> status x = OK)) rows)"
  shows "filter (\<lambda>m. nid m = nid n) rows' =
           map f (filter (\<lambda>x. \<not> (hook_id x = hook_id n \<and> status x = OK)) [n])"
    and "filter (\<lambda>m. nid m \<noteq> nid n) rows' =
           filter (\<lambda>m. nid m \<noteq> nid n \<and> \<not> (hook_id m = hook_id n \<and> status m = OK)) rows"
proof -
  let ?kept = "filter (\<lambda>x. \<not> (hook_id x = hook_id n \<and> status x = OK)) rows"
  have one: "filter (\<lambda>m. nid m = nid n) rows = [n]"
    using pk n unfolding fby_notification_pkey_def by (rule filter_key_singleton)
  have "filter (\<lambda>m. nid m = nid n) (map f ?kept) = map f (filter (\<lambda>m. nid m = nid n) ?kept)"
    by (rule filter_map_same) (simp add: f_def)
  also have "filter (\<lambda>m. nid m = nid n) ?kept =
      filter (\<lambda>x. \<not> (hook_id x = hook_id n \<and> status x = OK)) (filter (\<lambda>m. nid m = nid n) rows)"
    by (simp add: conj_commute)
  finally show "filter (\<lambda>m. nid m = nid n) rows' =
      map f (filter (\<lambda>x. \<not> (hook_id x = hook_id n \<and> status x = OK)) [n])"
    by (simp add: rows'_def one)
  have "filter (\<lambda>m. nid m \<noteq> nid n) (map f ?kept) = map f (filter (\<lambda>m. nid m \<noteq> nid n) ?kept)"
    by (rule filter_map_same) (simp add: f_def)
  also have "\<dots> = filter (\<lambda>m. nid m \<noteq> nid n) ?kept"
    by (rule map_idI) (simp add: f_def)
  also have "\<dots> = filter (\<lambda>m. nid m \<noteq> nid n \<and> \<not> (hook_id m = hook_id n \<and> status m = OK)) rows"
    by (simp add: conj_commute)
  finally show "filter (\<lambda>m. nid m \<noteq> nid n) rows' =
           filter (\<lambda>m. nid m \<noteq> nid n \<and> \<not> (hook_id m = hook_id n \<and> status m = OK)) rows"
    by (simp add: rows'_def)
qed

text \<open>
  Claim C9, amended. Let \<open>n\<close> be a row of a table with distinct ids. If \<open>n\<close> is \<open>PENDING\<close>
  and its counter is a number \<open>a\<close> below 2147483647, \<open>fby_pass_notification\<close> succeeds, and
  afterwards the only row with the id of \<open>n\<close> is \<open>n\<close> with status \<open>OK\<close>, \<open>attempts = a + 1\<close>,
  \<open>last_attempted = now()\<close> and \<open>last_error = NULL\<close>. If \<open>n\<close> is \<open>PENDING\<close> and its counter is
  \<open>NULL\<close>, the same holds but for the counter, which stays \<open>NULL\<close>. If \<open>n\<close> is \<open>PENDING\<close> and
  its counter is 2147483647 or more, the routine raises \<open>integer out of range\<close>. If \<open>n\<close> is
  \<open>OK\<close> already, the routine succeeds and no row with the id of \<open>n\<close> is left. Whenever the
  routine succeeds, the other rows are those of the table before, less the \<open>OK\<close> rows of
  the hook of \<open>n\<close>.
\<close>

theorem pass_notification_marks_pending_row:
  assumes pk: "fby_notification_pkey rows" and n: "n \<in> set rows"
  shows "(\<forall>a. status n = PENDING \<and> attempts n = Some a \<and> a < 2147483647 \<longrightarrow>
            (\<exists>rows'. fby_pass_notification (nid n) now rows = Inr rows'
               \<and> filter (\<lambda>m. nid m = nid n) rows' =
                   [n\<lparr> attempts := Some (a + 1), status := OK,
                       last_attempted := Some now, last_error := None \<rparr>]))
       \<and> (status n = PENDING \<and> attempts n = None \<longrightarrow>
            (\<exists>rows'. fby_pass_notification (nid n) now rows = Inr rows'
               \<and> filter (\<lambda>m. nid m = nid n) rows' =
                   [n\<lparr> status := OK, last_attempted := Some now, last_error := None \<rparr>]))
       \<and> (\<forall>a. status n = PENDING \<and> attempts n = Some a \<and> 2147483647 \<le> a \<longrightarrow>
            fby_pass_notification (nid n) now rows = Inl NUMERIC_VALUE_OUT_OF_RANGE)
       \<and> (status n = OK \<longrightarrow>
            (\<exists>rows'. fby_pass_notification (nid n) now rows = Inr rows'
               \<and> filter (\<lambda>m. nid m = nid n) rows' = []))
       \<and> (\<forall>rows'. fby_pass_notification (nid n) now rows = Inr rows' \<longrightarrow>
            filter (\<lambda>m. nid m \<noteq> nid n) rows' =
              filter (\<lambda>m. nid m \<noteq> nid n \<and> \<not> (hook_id m = hook_id n \<and> status m = OK)) rows)"
proof -
  let ?f = "\<lambda>x. if nid x = nid n
                   then x\<lparr> attempts := sql_plus_one (attempts x), status := OK,
                           last_attempted := Some now, last_error := None \<rparr>
                   else x"
  let ?rows' = "map ?f (filter (\<lambda>x. \<not> (hook_id x = hook_id n \<and> status x = OK)) rows)"
  note res = pass_as_map[OF pk n, of now]
  note same = pass_split(1)[OF pk n, of now]
  note rest = pass_split(2)[OF pk n, of now]
  have c1: "\<exists>rows'. fby_pass_notification (nid n) now rows = Inr rows'
               \<and> filter (\<lambda>m. nid m = nid n) rows' =
                   [n\<lparr> attempts := Some (a + 1), status := OK,
                       last_attempted := Some now, last_error := None \<rparr>]"
    if "status n = PENDING \<and> attempts n = Some a \<and> a < 2147483647" for a
  proof (intro exI[of _ ?rows'] conjI)
    show "fby_pass_notification (nid n) now rows = Inr ?rows'" using that by (simp add: res)
    show "filter (\<lambda>m. nid m = nid n) ?rows' =
                   [n\<lparr> attempts := Some (a + 1), status := OK,
                       last_attempted := Some now, last_error := None \<rparr>]"
      unfolding same using that by (simp add: sql_plus_one_def)
  qed
  have c2: "\<exists>rows'. fby_pass_notification (nid n) now rows = Inr rows'
               \<and> filter (\<lambda>m. nid m = nid n) rows' =
                   [n\<lparr> status := OK, last_attempted := Some now, last_error := None \<rparr>]"
    if "status n = PENDING \<and> attempts n = None"
  proof (intro exI[of _ ?rows'] conjI)
    show "fby_pass_notification (nid n) now rows = Inr ?rows'" using that by (simp add: res)
    show "filter (\<lambda>m. nid m = nid n) ?rows' =
                   [n\<lparr> status := OK, last_attempted := Some now, last_error := None \<rparr>]"
      unfolding same using that by (simp add: sql_plus_one_def)
  qed
  have c3: "fby_pass_notification (nid n) now rows = Inl NUMERIC_VALUE_OUT_OF_RANGE"
    if "status n = PENDING \<and> attempts n = Some a \<and> 2147483647 \<le> a" for a
    using that by (simp add: res)
  have c4: "\<exists>rows'. fby_pass_notification (nid n) now rows = Inr rows'
               \<and> filter (\<lambda>m. nid m = nid n) rows' = []"
    if "status n = OK"
  proof (intro exI[of _ ?rows'] conjI)
    show "fby_pass_notification (nid n) now rows = Inr ?rows'" using that by (simp add: res)
    show "filter (\<lambda>m. nid m = nid n) ?rows' = []" unfolding same using that by simp
  qed
  have c5: "filter (\<lambda>m. nid m \<noteq> nid n) rows' =
              filter (\<lambda>m. nid m \<noteq> nid n \<and> \<not> (hook_id m = hook_id n \<and> status m = OK)) rows"
    if "fby_pass_notification (nid n) now rows = Inr rows'" for rows'
  proof -
    from that have "rows' = ?rows'" unfolding res by (simp split: if_splits)
    then show ?thesis unfolding rest[symmetric] by (rule arg_cong)
  qed
  from c1 c2 c3 c4 c5 show ?thesis by blast
qed

theorem pass_notification_marks_pending_row_witness:
  "fby_notification_pkey [row_earlier, row1] \<and> row1 \<in> set [row_earlier, row1] \<and> status row1 = PENDING
   \<and> attempts row1 = Some 2
   \<and> fby_pass_notification 1 150 [row_earlier, row1] =
       Inr [\<lparr> nid = 1, hook_id = 7, projection_id = 3, scheduled_for = 100, attempts = Some 3,
              status = OK, last_attempted = Some 150, last_error = None \<rparr>]
   \<and> (\<exists>rows'. fby_pass_notification (nid row1) 150 [row_earlier, row1] = Inr rows'
        \<and> filter (\<lambda>m. nid m = nid row1) rows' =
            [row1\<lparr> attempts := Some (2 + 1), status := OK,
                   last_attempted := Some 150, last_error := None \<rparr>])"
proof -
  have h1: "row1 \<in> set [row_earlier, row1]" by simp
  have h2: "status row1 = PENDING" by (simp add: row1_def)
  have h3: "fby_notification_pkey [row_earlier, row1]"
    by (simp add: fby_notification_pkey_def row1_def row_earlier_def)
  have h4: "attempts row1 = Some 2" by (simp add: row1_def)
  have v: "fby_pass_notification 1 150 [row_earlier, row1] =
       Inr [\<lparr> nid = 1, hook_id = 7, projection_id = 3, scheduled_for = 100, attempts = Some 3,
              status = OK, last_attempted = Some 150, last_error = None \<rparr>]"
    by (simp add: fby_pass_notification_def overflows_def row1_def row_earlier_def sql_plus_one_def)
  from pass_notification_marks_pending_row[OF h3 h1, of 150] h2 h4
  have c: "\<exists>rows'. fby_pass_notification (nid row1) 150 [row_earlier, row1] = Inr rows'
        \<and> filter (\<lambda>m. nid m = nid row1) rows' =
            [row1\<lparr> attempts := Some (2 + 1), status := OK,
                   last_attempted := Some 150, last_error := None \<rparr>]"
    by simp
  from h1 h2 h3 h4 v c show ?thesis by blast
qed

subsection \<open>The uniqueness invariant\<close>

lemma reaches_constraints:
  assumes "reaches db db'"
      and "fby_notification_pkey (notifications db)"
      and "fby_notification_hook_id_projection_id_status_uniq (notifications db)"
  shows "fby_notification_pkey (notifications db') \<and>
         fby_notification_hook_id_projection_id_status_uniq (notifications db')"
  using assms
proof (induction rule: reaches.induct)
  case start
  then show ?case by simp
next
  case (schedule db1 now h p db2)
  then show ?case using schedule_pkey schedule_uniq by blast
next
  case (pass db1 i now rows')
  then show ?case using pass_pkey pass_uniq by simp blast
next
  case (fail db1 i s e now rows')
  then show ?case using fail_pkey fail_uniq by simp blast
qed

lemma distinct_key_count: "distinct (map g xs) \<Longrightarrow> length (filter (\<lambda>m. g m = k) xs) \<le> 1"
proof (induction xs)
  case Nil
  then show ?case by simp
next
  case (Cons y ys)
  show ?case
  proof (cases "g y = k")
    case True
    with Cons.prems have "\<forall>m \<in> set ys. g m \<noteq> k" by (auto simp: image_iff)
    then have "filter (\<lambda>m. g m = k) ys = []" by (simp add: filter_empty_conv)
    with True show ?thesis by simp
  next
    case False
    with Cons show ?thesis by simp
  qed
qed

lemma uniq_count:
  assumes "fby_notification_hook_id_projection_id_status_uniq rows"
  shows "length (filter (\<lambda>n. hook_id n = h \<and> projection_id n = p \<and> status n = s) rows) \<le> 1"
proof -
  have "length (filter (\<lambda>n. uniq_key n = (h, p, s)) rows) \<le> 1"
    using assms unfolding fby_notification_hook_id_projection_id_status_uniq_def
    by (rule distinct_key_count)
  then show ?thesis by (simp add: uniq_key_def)
qed

text \<open>
  Claim C2. Start from any table that satisfies its primary key and its unique constraint
  on \<open>(hook_id, projection_id, status)\<close>. In every state reached by any sequence of
  \<open>fby_schedule_notification\<close>, \<open>fby_pass_notification\<close> and \<open>fby_fail_notification\<close>,
  the unique constraint holds: for every hook and projection there is at most one
  \<open>PENDING\<close> and at most one \<open>OK\<close> notification.
\<close>

theorem notification_uniqueness_invariant:
  assumes pk: "fby_notification_pkey (notifications db)"
      and un: "fby_notification_hook_id_projection_id_status_uniq (notifications db)"
      and rs: "reaches db db'"
  shows "fby_notification_hook_id_projection_id_status_uniq (notifications db')
       \<and> (\<forall>h p. length (filter (\<lambda>n. hook_id n = h \<and> projection_id n = p \<and> status n = PENDING)
                           (notifications db')) \<le> 1
              \<and> length (filter (\<lambda>n. hook_id n = h \<and> projection_id n = p \<and> status n = OK)
                           (notifications db')) \<le> 1)"
proof -
  have "fby_notification_hook_id_projection_id_status_uniq (notifications db')"
    using reaches_constraints[OF rs pk un] by simp
  then show ?thesis using uniq_count by blast
qed

lemma reaches_db_busy: "reaches db_created db_busy"
proof -
  let ?d1 = "\<lparr> notifications = [excluded_row 1 100 7 3], fby_notification_id_seq = 1,
               fby_hook_ids = [7], fby_projection_ids = [3] \<rparr>"
  have s1: "fby_schedule_notification 100 7 3 db_created = Inr ?d1"
    by (simp add: fby_schedule_notification_def db_created_def Let_def excluded_row_def uniq_key_def)
  have r1: "reaches db_created ?d1" using reaches.start s1 by (rule reaches.schedule)
  let ?p2 = "[(excluded_row 1 100 7 3)\<lparr> attempts := Some 1, status := OK,
                 last_attempted := Some 150 \<rparr>]"
  let ?d2 = "?d1\<lparr> notifications := ?p2 \<rparr>"
  have s2: "fby_pass_notification 1 150 (notifications ?d1) = Inr ?p2"
    by (simp add: fby_pass_notification_def overflows_def excluded_row_def sql_plus_one_def)
  have r2: "reaches db_created ?d2" using r1 s2 by (rule reaches.pass)
  let ?d3 = "\<lparr> notifications = [(excluded_row 1 100 7 3)\<lparr> attempts := Some 1, status := OK,
         last_attempted := Some 150 \<rparr>, excluded_row 2 200 7 3], fby_notification_id_seq = 2,
               fby_hook_ids = [7], fby_projection_ids = [3] \<rparr>"
  have s3: "fby_schedule_notification 200 7 3 ?d2 = Inr ?d3"
    by (simp add: fby_schedule_notification_def Let_def excluded_row_def uniq_key_def)
  have r3: "reaches db_created ?d3" using r2 s3 by (rule reaches.schedule)
  have s4: "fby_fail_notification 2 300 ''boom'' 250 (notifications ?d3) = Inr (notifications db_busy)"
    by (simp add: db_busy_def fby_fail_notification_def overflows_def excluded_row_def
          sql_plus_one_def)
  have r4: "reaches db_created (?d3\<lparr> notifications := notifications db_busy \<rparr>)"
    using r3 s4 by (rule reaches.fail)
  have "?d3\<lparr> notifications := notifications db_busy \<rparr> = db_busy"
    by (simp add: db_busy_def)
  with r4 show ?thesis by simp
qed

theorem notification_uniqueness_invariant_witness:
  "fby_notification_pkey (notifications db_created)
   \<and> fby_notification_hook_id_projection_id_status_uniq (notifications db_created)
   \<and> reaches db_created db_busy
   \<and> fby_notification_hook_id_projection_id_status_uniq (notifications db_busy)
   \<and> (\<forall>h p. length (filter (\<lambda>n. hook_id n = h \<and> projection_id n = p \<and> status n = PENDING)
                           (notifications db_busy)) \<le> 1
              \<and> length (filter (\<lambda>n. hook_id n = h \<and> projection_id n = p \<and> status n = OK)
                           (notifications db_busy)) \<le> 1)"
proof -
  have h1: "fby_notification_pkey (notifications db_created)"
    by (simp add: fby_notification_pkey_def db_created_def)
  have h2: "fby_notification_hook_id_projection_id_status_uniq (notifications db_created)"
    by (simp add: fby_notification_hook_id_projection_id_status_uniq_def db_created_def)
  from notification_uniqueness_invariant[OF h1 h2 reaches_db_busy] h1 h2 reaches_db_busy
  show ?thesis by blast
qed

subsection \<open>Scheduling\<close>





section \<open>Properties of the change-set trigger\<close>

lemma hex_digit_in: "d < 16 \<Longrightarrow> hex_digit d \<in> set ''0123456789abcdef''"
  unfolding hex_digit_def by (rule nth_mem) simp

lemma length_encode_hex: "length (encode_hex bytes) = 2 * length bytes"
  by (induction bytes) (simp_all add: encode_hex_def)

lemma encode_hex_digits: "list_all (\<lambda>c. c \<in> set ''0123456789abcdef'') (encode_hex bytes)"
proof (induction bytes)
  case Nil
  then show ?case by (simp add: encode_hex_def)
next
  case (Cons b bytes)
  have "unat b < 2 ^ LENGTH(8)" by (rule unsigned_less)
  then have "unat b < 256" by simp
  then have "unat b div 16 < 16" by simp
  then have hi: "hex_digit (unat b div 16) \<in> set ''0123456789abcdef''" by (rule hex_digit_in)
  have lo: "hex_digit (unat b mod 16) \<in> set ''0123456789abcdef''" by (rule hex_digit_in) simp
  from Cons have "list_all (\<lambda>c. c \<in> set ''0123456789abcdef'') (encode_hex bytes)" .
  with hi lo show ?case unfolding encode_hex_def by simp
qed

lemma length_gen_random_bytes: "length (gen_random_bytes src n) = n"
  by (simp add: gen_random_bytes_def)

lemma trigger_tag: "matches_entity_tag (encode_hex (gen_random_bytes src 10))"
  unfolding matches_entity_tag_def
proof (intro conjI)
  show "length (encode_hex (gen_random_bytes src 10)) = 20"
    by (simp add: length_encode_hex length_gen_random_bytes)
  show "list_all (\<lambda>c. c \<in> set ''0123456789abcdef'') (encode_hex (gen_random_bytes src 10))"
    by (rule encode_hex_digits)
qed

lemma insert_Inr:
  assumes "rdf_change_set_insert now src NEW tbl = Inr tbl'"
  shows "\<exists>e. new_effective NEW = Some e \<and> new_id NEW \<notin> set (map cs_id tbl) \<and>
           tbl' = tbl @ [\<lparr> cs_id = new_id NEW, effective = e, cs_notes = new_notes NEW,
                            last_modified = now,
                            entity_tag = encode_hex (gen_random_bytes src 10) \<rparr>]"
  using assms
  by (auto simp: rdf_change_set_insert_def Let_def rdf_on_new_change_set_def
        split: if_splits option.splits)

lemma populated_tags:
  assumes "populated tbl" "r \<in> set tbl"
  shows "matches_entity_tag (entity_tag r)"
  using assms
proof (induction arbitrary: r rule: populated.induct)
  case created
  then show ?case by simp
next
  case (inserted tbl now src NEW tbl')
  from insert_Inr[OF inserted.hyps(2)] obtain e where
    t: "tbl' = tbl @ [\<lparr> cs_id = new_id NEW, effective = e, cs_notes = new_notes NEW,
                            last_modified = now,
                            entity_tag = encode_hex (gen_random_bytes src 10) \<rparr>]"
    by blast
  with inserted.prems
  consider "r \<in> set tbl" | "entity_tag r = encode_hex (gen_random_bytes src 10)" by auto
  then show ?case
  proof cases
    case 1
    then show ?thesis by (rule inserted.IH)
  next
    case 2
    then show ?thesis by (simp add: trigger_tag)
  qed
qed

lemma find_append_None: "find P xs = None \<Longrightarrow> find P (xs @ ys) = find P ys"
  by (induction xs) (auto split: if_splits)

lemma find_append_Some: "find P xs = Some x \<Longrightarrow> find P (xs @ ys) = Some x"
  by (induction xs) (auto split: if_splits)

lemma find_fresh_id: "i \<notin> set (map cs_id tbl) \<Longrightarrow> find (\<lambda>r. cs_id r = i) tbl = None"
  by (induction tbl) auto

text \<open>
  Claim C8. An insert into \<open>rdf_change_set\<close> that succeeds appends the row it was given with
  \<open>last_modified\<close> set to \<open>now()\<close> and \<open>entity_tag\<close> set to the hexadecimal encoding of ten
  random bytes, whatever the statement supplied for the two columns, and \<open>getChangeSet\<close>
  finds that row under its id. Whatever the bytes, the encoding matches
  \<open>^[0-9a-f]{20}$\<close>. So in a table built by inserts, the change set that \<open>getChangeSet\<close>
  returns for an id carries such a tag, and later inserts do not change what
  \<open>getChangeSet\<close> returns for that id.
\<close>

theorem change_set_entity_tag_is_stable_hex:
  "(\<forall>tbl'. rdf_change_set_insert now src NEW tbl = Inr tbl' \<longrightarrow>
       (\<exists>row. tbl' = tbl @ [row] \<and> cs_id row = new_id NEW \<and> Some (effective row) = new_effective NEW
           \<and> cs_notes row = new_notes NEW \<and> last_modified row = now
           \<and> entity_tag row = encode_hex (gen_random_bytes src 10)
           \<and> getChangeSet (new_id NEW) tbl' = Some row))
   \<and> matches_entity_tag (encode_hex (gen_random_bytes src 10))
   \<and> (\<forall>i cs. populated tbl \<and> getChangeSet i tbl = Some cs \<longrightarrow>
         matches_entity_tag (entity_tag cs)
         \<and> (\<forall>tbl'. rdf_change_set_insert now src NEW tbl = Inr tbl' \<longrightarrow> getChangeSet i tbl' = Some cs))"
proof (intro conjI allI impI)
  fix tbl' assume r: "rdf_change_set_insert now src NEW tbl = Inr tbl'"
  from insert_Inr[OF r] obtain e where e: "new_effective NEW = Some e"
    and f: "new_id NEW \<notin> set (map cs_id tbl)"
    and t: "tbl' = tbl @ [\<lparr> cs_id = new_id NEW, effective = e, cs_notes = new_notes NEW,
                            last_modified = now,
                            entity_tag = encode_hex (gen_random_bytes src 10) \<rparr>]"
    by blast
  let ?row = "\<lparr> cs_id = new_id NEW, effective = e, cs_notes = new_notes NEW,
                last_modified = now, entity_tag = encode_hex (gen_random_bytes src 10) \<rparr>"
  have "getChangeSet (new_id NEW) tbl' = Some ?row"
    by (simp add: getChangeSet_def t find_append_None[OF find_fresh_id[OF f]])
  with t e show "\<exists>row. tbl' = tbl @ [row] \<and> cs_id row = new_id NEW
           \<and> Some (effective row) = new_effective NEW
           \<and> cs_notes row = new_notes NEW \<and> last_modified row = now
           \<and> entity_tag row = encode_hex (gen_random_bytes src 10)
           \<and> getChangeSet (new_id NEW) tbl' = Some row"
    by (intro exI[of _ ?row]) simp
next
  show "matches_entity_tag (encode_hex (gen_random_bytes src 10))" by (rule trigger_tag)
next
  fix i cs assume a: "populated tbl \<and> getChangeSet i tbl = Some cs"
  then have "cs \<in> set tbl" by (auto simp: getChangeSet_def dest: find_Some_D)
  with a show "matches_entity_tag (entity_tag cs)" using populated_tags by blast
next
  fix i cs tbl'
  assume a: "populated tbl \<and> getChangeSet i tbl = Some cs"
    and r: "rdf_change_set_insert now src NEW tbl = Inr tbl'"
  from insert_Inr[OF r] obtain row where "tbl' = tbl @ [row]" by blast
  with a show "getChangeSet i tbl' = Some cs"
    by (simp add: getChangeSet_def find_append_Some)
qed

theorem change_set_entity_tag_is_stable_hex_witness:
  "rdf_change_set_insert 1700000000000000 sample_src countries_new [] = Inr [countries_row]
   \<and> populated [countries_row]
   \<and> getChangeSet 1 [countries_row] = Some countries_row
   \<and> matches_entity_tag (entity_tag countries_row)
   \<and> (\<exists>tbl'. rdf_change_set_insert 1800000000000000 sample_src (countries_new\<lparr> new_id := 2 \<rparr>)
                  [countries_row] = Inr tbl'
            \<and> getChangeSet 1 tbl' = Some countries_row)"
proof -
  have tag: "encode_hex (gen_random_bytes sample_src 10) = ''abd0f51a3f6489aed3f8''"
    by (simp add: encode_hex_def gen_random_bytes_def sample_src_def hex_digit_def upt_rec)
  have i1: "rdf_change_set_insert 1700000000000000 sample_src countries_new [] = Inr [countries_row]"
    by (simp add: rdf_change_set_insert_def rdf_on_new_change_set_def Let_def tag countries_new_def
          countries_row_def)
  have p: "populated [countries_row]" using populated.created i1 by (rule populated.inserted)
  have g: "getChangeSet 1 [countries_row] = Some countries_row"
    by (simp add: getChangeSet_def countries_row_def)
  let ?NEW = "countries_new\<lparr> new_id := 2 \<rparr>"
  obtain tbl' where i2: "rdf_change_set_insert 1800000000000000 sample_src ?NEW [countries_row] = Inr tbl'"
    by (simp add: rdf_change_set_insert_def rdf_on_new_change_set_def Let_def countries_new_def
          countries_row_def)
  note t = change_set_entity_tag_is_stable_hex[of 1800000000000000 sample_src ?NEW "[countries_row]"]
  from t p g have c1: "matches_entity_tag (entity_tag countries_row)" by blast
  from t p g i2 have "getChangeSet 1 tbl' = Some countries_row" by blast
  with i2 have c2: "\<exists>tbl'. rdf_change_set_insert 1800000000000000 sample_src ?NEW [countries_row] = Inr tbl'
            \<and> getChangeSet 1 tbl' = Some countries_row" by blast
  from i1 p g c1 c2 show ?thesis by blast
qed

section \<open>Properties of the query API\<close>

subsection \<open>The change log\<close>

lemma set_change_log_join:
  "set (change_log_join db p) = {c \<in> set (change_sets db). in_change_log db p c}"
  by (auto simp: change_log_join_def in_change_log_def list_ex_iff)

lemma distinct_on_id_subset: "set (distinct_on_id xs) \<subseteq> set xs"
  by (induction xs) auto

lemma distinct_on_id_ids: "set (map cs_id (distinct_on_id xs)) = set (map cs_id xs)"
  by (induction xs) auto

lemma distinct_on_id_distinct: "distinct (map cs_id (distinct_on_id xs))"
proof (induction xs)
  case Nil
  then show ?case by simp
next
  case (Cons c cs)
  have "cs_id c \<notin> set (map cs_id (distinct_on_id cs))" if "cs_id c \<notin> set (map cs_id cs)"
    using that by (simp only: distinct_on_id_ids not_False_eq_True)
  with Cons show ?case by simp
qed

lemma distinct_on_id_set:
  assumes "\<And>x y. x \<in> set xs \<Longrightarrow> y \<in> set xs \<Longrightarrow> cs_id x = cs_id y \<Longrightarrow> x = y"
  shows "set (distinct_on_id xs) = set xs"
proof
  show "set (distinct_on_id xs) \<subseteq> set xs" by (rule distinct_on_id_subset)
  show "set xs \<subseteq> set (distinct_on_id xs)"
  proof
    fix x assume x: "x \<in> set xs"
    then have "cs_id x \<in> set (map cs_id (distinct_on_id xs))"
      by (simp only: distinct_on_id_ids) simp
    then obtain y where y: "y \<in> set (distinct_on_id xs)" "cs_id y = cs_id x" by auto
    then have "y \<in> set xs" using distinct_on_id_subset by blast
    with x y(2) have "y = x" using assms by blast
    with y(1) show "x \<in> set (distinct_on_id xs)" by simp
  qed
qed

lemma distinct_map_mset: "mset xs = mset ys \<Longrightarrow> distinct (map f xs) = distinct (map f ys)"
proof -
  assume "mset xs = mset ys"
  then have "mset (map f xs) = mset (map f ys)" by simp
  then show ?thesis by (rule mset_eq_imp_distinct_iff)
qed

lemma key_less_precedes:
  "((effective c, cs_id c) < (effective d, cs_id d)) = precedes c d"
  by (auto simp: precedes_def)

text \<open>
  Claim C3. Let the ids of \<open>rdf_change_set\<close> be distinct, as its primary key demands. Then
  \<open>getChangeLog\<close> returns exactly the change sets with at least one data frame for an
  entity the projection depends on; each entry of the list precedes every later one by
  \<open>effective\<close>, or by id where \<open>effective\<close> is equal; and no change-set id occurs twice,
  however many frames of a change set are for entities of the projection.
\<close>

theorem getChangeLog_is_the_sorted_distinct_log:
  assumes pk: "distinct (map cs_id (change_sets db))"
  shows "set (getChangeLog db p) = {c \<in> set (change_sets db). in_change_log db p c}
       \<and> sorted_wrt precedes (getChangeLog db p)
       \<and> distinct (map cs_id (getChangeLog db p))"
proof (intro conjI)
  let ?j = "change_log_join db p"
  let ?key = "\<lambda>c. (effective c, cs_id c)"
  have same: "x = y" if "x \<in> set ?j" "y \<in> set ?j" "cs_id x = cs_id y" for x y
  proof -
    from that have "x \<in> set (change_sets db)" "y \<in> set (change_sets db)"
      by (simp_all add: set_change_log_join)
    with pk that(3) show ?thesis by (meson distinct_map inj_onD)
  qed
  have "set (getChangeLog db p) = set ?j"
    by (simp add: getChangeLog_def distinct_on_id_set[of ?j, OF same])
  then show "set (getChangeLog db p) = {c \<in> set (change_sets db). in_change_log db p c}"
    by (simp add: set_change_log_join)
  have d: "distinct (map cs_id (getChangeLog db p))"
    unfolding getChangeLog_def
    using distinct_map_mset[of "sort_key ?key (distinct_on_id ?j)" "distinct_on_id ?j" cs_id]
    by (simp add: distinct_on_id_distinct)
  then show "distinct (map cs_id (getChangeLog db p))" .
  have "distinct (map ?key (getChangeLog db p))"
  proof -
    have "inj_on ?key (set (getChangeLog db p))"
    proof (rule inj_onI)
      fix x y assume "x \<in> set (getChangeLog db p)" "y \<in> set (getChangeLog db p)"
        "?key x = ?key y"
      then show "x = y" using d by (simp add: distinct_map inj_on_def)
    qed
    moreover have "distinct (getChangeLog db p)" using d by (simp add: distinct_map)
    ultimately show ?thesis by (simp add: distinct_map)
  qed
  moreover have "sorted (map ?key (getChangeLog db p))"
    unfolding getChangeLog_def by (rule sorted_sort_key)
  ultimately have "sorted_wrt (<) (map ?key (getChangeLog db p))"
    by (simp add: strict_sorted_iff)
  then have "sorted_wrt (\<lambda>c d. ?key c < ?key d) (getChangeLog db p)"
    by (simp add: sorted_wrt_map)
  then show "sorted_wrt precedes (getChangeLog db p)"
    by (simp only: key_less_precedes)
qed

theorem getChangeLog_is_the_sorted_distinct_log_witness:
  "distinct (map cs_id (change_sets change_log_test_db))
   \<and> map cs_id (getChangeLog change_log_test_db vat_rates_v1) = [1, 2, 4]
   \<and> set (getChangeLog change_log_test_db vat_rates_v1) =
        {c \<in> set (change_sets change_log_test_db). in_change_log change_log_test_db vat_rates_v1 c}
   \<and> sorted_wrt precedes (getChangeLog change_log_test_db vat_rates_v1)
   \<and> distinct (map cs_id (getChangeLog change_log_test_db vat_rates_v1))"
proof -
  have h: "distinct (map cs_id (change_sets change_log_test_db))"
    by (simp add: change_log_test_db_def change_set_row_def)
  have v: "map cs_id (getChangeLog change_log_test_db vat_rates_v1) = [1, 2, 4]"
    by (simp add: getChangeLog_def change_log_join_def change_log_test_db_def vat_rates_v1_def
          change_set_row_def)
  from getChangeLog_is_the_sorted_distinct_log[OF h, of vat_rates_v1] h v show ?thesis by blast
qed

text \<open>The second API test: three frames of one change set give one entry.\<close>

lemma should_dedupe_change_sets:
  "map cs_id (getChangeLog dedupe_test_db vat_rates_v1) = [1]"
  by (simp add: getChangeLog_def change_log_join_def dedupe_test_db_def vat_rates_v1_def
        change_set_row_def)

section \<open>Properties of the aggregates\<close>

subsection \<open>The function emits the last frame of each identifier tuple\<close>

lemma last_frame_alt:
  "last_frame e k h =
     (if filter (\<lambda>fr. identifier_tuple e (fr_fields fr) = k) h = [] then None
      else Some (last (filter (\<lambda>fr. identifier_tuple e (fr_fields fr) = k) h)))"
  by (simp add: last_frame_def split: list.splits)

lemma last_frame_snoc:
  "last_frame e k (h @ [fr]) =
     (if identifier_tuple e (fr_fields fr) = k then Some fr else last_frame e k h)"
  by (simp add: last_frame_alt)

lemma last_frame_absent:
  "k \<notin> set (map (\<lambda>fr. identifier_tuple e (fr_fields fr)) h) \<Longrightarrow> last_frame e k h = None"
proof -
  assume "k \<notin> set (map (\<lambda>fr. identifier_tuple e (fr_fields fr)) h)"
  then have "filter (\<lambda>fr. identifier_tuple e (fr_fields fr) = k) h = []"
    by (auto simp: filter_empty_conv)
  then show ?thesis by (simp add: last_frame_def)
qed

lemma map_of_emitted:
  "map_of (concat (map (\<lambda>k. case s k of None \<Rightarrow> [] | Some v \<Rightarrow> [(k, v)]) ks)) k =
     (if k \<in> set ks then s k else None)"
proof (induction ks)
  case Nil
  then show ?case by simp
next
  case (Cons a ks)
  show ?case
  proof (cases "s a")
    case None
    with Cons show ?thesis by auto
  next
    case (Some v)
    with Cons show ?thesis by auto
  qed
qed

lemma fst_emitted:
  "map fst (concat (map (\<lambda>k. case s k of None \<Rightarrow> [] | Some v \<Rightarrow> [(k, v)]) ks)) =
     filter (\<lambda>k. s k \<noteq> None) ks"
  by (induction ks) (auto split: option.splits)

lemma get_aggregate_emitted:
  "get_aggregate db e side c =
     concat (map (\<lambda>k. case latest e (history db e side c) k of None \<Rightarrow> [] | Some v \<Rightarrow> [(k, v)])
               (remdups (map (\<lambda>fr. identifier_tuple e (fr_fields fr)) (history db e side c))))"
  unfolding get_aggregate_def Let_def latest_def
  by (rule arg_cong[where f = concat], rule map_cong[OF refl]) (simp split: option.splits)

lemma map_of_get_aggregate:
  "map_of (get_aggregate db e side c) k = latest e (history db e side c) k"
proof (cases "k \<in> set (map (\<lambda>fr. identifier_tuple e (fr_fields fr)) (history db e side c))")
  case True
  then show ?thesis by (simp only: get_aggregate_emitted map_of_emitted set_remdups if_True)
next
  case False
  have "latest e (history db e side c) k = None"
    using last_frame_absent[OF False] by (simp add: latest_def)
  with False show ?thesis by (simp only: get_aggregate_emitted map_of_emitted set_remdups if_False)
qed

lemma distinct_get_aggregate: "distinct (map fst (get_aggregate db e side c))"
  by (simp only: get_aggregate_emitted fst_emitted) simp

subsection \<open>The function and the contract speak of the same frames, order and key\<close>

lemma identifier_tuple_identifiers_of: "identifier_tuple e (fr_fields fr) = identifiers_of e fr"
  by (simp add: identifier_tuple_def identifiers_of_def)

lemma other_fields_fields_of: "other_fields e (fr_fields fr) = fields_of e fr"
  by (simp add: other_fields_def fields_of_def)

lemma set_join:
  "y \<in> set [J f s x. f \<leftarrow> fs, P f, s \<leftarrow> ss, Q f s, x \<leftarrow> xs, R f x] \<longleftrightarrow>
     (\<exists>f \<in> set fs. \<exists>s \<in> set ss. \<exists>x \<in> set xs. P f \<and> Q f s \<and> R f x \<and> y = J f s x)"
  by auto

lemma set_entity_frames:
  "fr \<in> set (entity_frames db e side) \<longleftrightarrow>
     (\<exists>f \<in> set (data_frames db). \<exists>s \<in> set (change_sets db). \<exists>x \<in> set side.
        f_entity_id f = e_id e \<and> cs_id s = f_change_set_id f \<and> rdf_frame_id x = f_id f
        \<and> fr = \<lparr> fr_effective = effective s, fr_change_set_id = cs_id s, fr_id = f_id f,
                  fr_action = f_action f, fr_fields = field_values x \<rparr>)"
  unfolding entity_frames_def by (rule set_join)

lemma up_to_iff:
  "up_to db c fr \<longleftrightarrow>
     (\<exists>t \<in> set (change_sets db). cs_id t = c
        \<and> (fr_effective fr < effective t
           \<or> (fr_effective fr = effective t \<and> fr_change_set_id fr \<le> cs_id t)))"
  by (auto simp: up_to_def list_ex_iff)

lemma set_history: "fr \<in> set (history db e side c) \<longleftrightarrow> in_scope db e side c fr"
proof
  assume "fr \<in> set (history db e side c)"
  then have a: "fr \<in> set (entity_frames db e side)" and b: "up_to db c fr"
    by (simp_all add: history_def)
  from a obtain f s x where fsx: "f \<in> set (data_frames db)" "s \<in> set (change_sets db)" "x \<in> set side"
      "f_entity_id f = e_id e" "f_change_set_id f = cs_id s" "rdf_frame_id x = f_id f"
      "fr = \<lparr> fr_effective = effective s, fr_change_set_id = cs_id s, fr_id = f_id f,
                  fr_action = f_action f, fr_fields = field_values x \<rparr>"
    unfolding set_entity_frames by metis
  from b obtain t where t: "t \<in> set (change_sets db)" "cs_id t = c"
      "fr_effective fr < effective t \<or> (fr_effective fr = effective t \<and> fr_change_set_id fr \<le> cs_id t)"
    unfolding up_to_iff by blast
  from t(3) have "effective s < effective t \<or> (effective s = effective t \<and> cs_id s \<le> cs_id t)"
    by (simp add: fsx(7))
  with fsx t(1,2) show "in_scope db e side c fr" unfolding in_scope_def by blast
next
  assume "in_scope db e side c fr"
  then obtain f s x t where h: "f \<in> set (data_frames db)" "s \<in> set (change_sets db)" "x \<in> set side"
      "t \<in> set (change_sets db)"
      "f_entity_id f = e_id e" "f_change_set_id f = cs_id s" "rdf_frame_id x = f_id f" "cs_id t = c"
      "effective s < effective t \<or> (effective s = effective t \<and> cs_id s \<le> cs_id t)"
      "fr = \<lparr> fr_effective = effective s, fr_change_set_id = cs_id s, fr_id = f_id f,
                  fr_action = f_action f, fr_fields = field_values x \<rparr>"
    unfolding in_scope_def by blast
  have a: "fr \<in> set (entity_frames db e side)"
    unfolding set_entity_frames using h(1,2,3,5,7,10) h(6)[symmetric] by blast
  from h(9) have "fr_effective fr < effective t \<or> (fr_effective fr = effective t \<and> fr_change_set_id fr \<le> cs_id t)"
    by (simp add: h(10))
  with h(4,8) have "up_to db c fr" unfolding up_to_iff by blast
  with a show "fr \<in> set (history db e side c)" by (simp add: history_def)
qed

lemma frame_order_less: "frame_order a < frame_order b \<longleftrightarrow> comes_before a b"
  by (auto simp: frame_order_def comes_before_def)

lemma frame_order_eq: "frame_order a = frame_order b \<Longrightarrow> fr_id a = fr_id b"
  by (simp add: frame_order_def)

lemma history_in_order: "sorted_wrt (\<lambda>a b. \<not> comes_before b a) (history db e side c)"
proof -
  have "sorted (map frame_order (history db e side c))"
    unfolding history_def by (rule sorted_sort_key)
  then have "sorted_wrt (\<lambda>a b. frame_order a \<le> frame_order b) (history db e side c)"
    by (simp add: sorted_map)
  then show ?thesis
    by (rule sorted_wrt_mono_rel[rotated]) (simp add: frame_order_less[symmetric])
qed

lemma history_is_frame_history: "frame_history db e side c (history db e side c)"
  unfolding frame_history_def using set_history history_in_order by blast

subsection \<open>Frames in scope are told apart by their position\<close>

lemma same_key_same_row:
  assumes "distinct (map g xs)" "x \<in> set xs" "y \<in> set xs" "g x = g y"
  shows "x = y"
  using assms by (meson distinct_map inj_onD)

lemma in_scope_same_id:
  assumes cs: "distinct (map cs_id (change_sets db))"
      and fs: "distinct (map f_id (data_frames db))"
      and xs: "distinct (map rdf_frame_id side)"
      and a: "in_scope db e side c a" and b: "in_scope db e side c b"
      and i: "fr_id a = fr_id b"
  shows "a = b"
proof -
  from a obtain f s x where a': "f \<in> set (data_frames db)" "s \<in> set (change_sets db)" "x \<in> set side"
      "f_change_set_id f = cs_id s" "rdf_frame_id x = f_id f"
      "a = \<lparr> fr_effective = effective s, fr_change_set_id = cs_id s, fr_id = f_id f,
                  fr_action = f_action f, fr_fields = field_values x \<rparr>"
    unfolding in_scope_def by blast
  from b obtain f' s' x' where b': "f' \<in> set (data_frames db)" "s' \<in> set (change_sets db)" "x' \<in> set side"
      "f_change_set_id f' = cs_id s'" "rdf_frame_id x' = f_id f'"
      "b = \<lparr> fr_effective = effective s', fr_change_set_id = cs_id s', fr_id = f_id f',
                  fr_action = f_action f', fr_fields = field_values x' \<rparr>"
    unfolding in_scope_def by blast
  from i have "f_id f = f_id f'" by (simp add: a'(6) b'(6))
  with fs a'(1) b'(1) have f: "f = f'" by (rule same_key_same_row)
  then have "cs_id s = cs_id s'" using a'(4) b'(4) by simp
  with cs a'(2) b'(2) have s: "s = s'" by (rule same_key_same_row)
  have "rdf_frame_id x = rdf_frame_id x'" using a'(5) b'(5) f by simp
  with xs a'(3) b'(3) have "x = x'" by (rule same_key_same_row)
  with f s show ?thesis by (simp add: a'(6) b'(6))
qed

lemma in_scope_total:
  assumes cs: "distinct (map cs_id (change_sets db))"
      and fs: "distinct (map f_id (data_frames db))"
      and xs: "distinct (map rdf_frame_id side)"
      and a: "in_scope db e side c a" and b: "in_scope db e side c b"
      and n: "\<not> comes_before b a"
  shows "a = b \<or> comes_before a b"
proof (cases "comes_before a b")
  case True
  then show ?thesis by simp
next
  case False
  with n have "frame_order a = frame_order b"
    unfolding frame_order_less[symmetric] by simp
  then have "fr_id a = fr_id b" by (rule frame_order_eq)
  with cs fs xs a b have "a = b" by (rule in_scope_same_id)
  then show ?thesis by simp
qed

lemma comes_before_asym: "comes_before a b \<Longrightarrow> \<not> comes_before b a"
  unfolding frame_order_less[symmetric] by simp

subsection \<open>The last frame of an identifier tuple in a frame history\<close>

lemma ne_in_set: "x \<in> set xs \<Longrightarrow> xs \<noteq> []"
  by (cases xs) simp_all

lemma sorted_wrt_last:
  "sorted_wrt R xs \<Longrightarrow> x \<in> set xs \<Longrightarrow> x = last xs \<or> R x (last xs)"
proof (induction xs)
  case Nil
  then show ?case by simp
next
  case (Cons y ys)
  show ?case
  proof (cases "ys = []")
    case True
    with Cons.prems show ?thesis by simp
  next
    case False
    then have l: "last (y # ys) = last ys" and m: "last ys \<in> set ys" by simp_all
    show ?thesis
    proof (cases "x \<in> set ys")
      case True
      with Cons show ?thesis using l by simp
    next
      case False
      with Cons.prems have "x = y" by simp
      with Cons.prems(1) m show ?thesis using l by simp
    qed
  qed
qed

text \<open>
  The last frame for an identifier tuple in any frame history is the frame in scope with
  that tuple which every other such frame comes before.
\<close>

lemma last_frame_of_frame_history:
  assumes cs: "distinct (map cs_id (change_sets db))"
      and fs: "distinct (map f_id (data_frames db))"
      and xs: "distinct (map rdf_frame_id side)"
      and h: "frame_history db e side c h"
  shows "last_frame e k h = Some fr \<longleftrightarrow>
     in_scope db e side c fr \<and> identifiers_of e fr = k
     \<and> (\<forall>fr'. in_scope db e side c fr' \<and> identifiers_of e fr' = k \<longrightarrow> fr' = fr \<or> comes_before fr' fr)"
proof -
  let ?ys = "filter (\<lambda>fr. identifiers_of e fr = k) h"
  have lf: "last_frame e k h = (if ?ys = [] then None else Some (last ?ys))"
    by (simp add: last_frame_alt identifier_tuple_identifiers_of)
  have mem: "x \<in> set ?ys \<longleftrightarrow> in_scope db e side c x \<and> identifiers_of e x = k" for x
    using h by (auto simp: frame_history_def)
  have so: "sorted_wrt (\<lambda>a b. \<not> comes_before b a) ?ys"
    using h by (simp add: frame_history_def sorted_wrt_filter)
  show ?thesis
  proof
    assume "last_frame e k h = Some fr"
    then have ne: "?ys \<noteq> []" and l: "fr = last ?ys" by (simp_all add: lf split: if_splits)
    from ne have "last ?ys \<in> set ?ys" by (rule last_in_set)
    then have "fr \<in> set ?ys" unfolding l .
    then have a: "in_scope db e side c fr" "identifiers_of e fr = k" using mem by blast+
    have "fr' = fr \<or> comes_before fr' fr"
      if "in_scope db e side c fr' \<and> identifiers_of e fr' = k" for fr'
    proof -
      from that have "fr' \<in> set ?ys" using mem by blast
      with so have "fr' = fr \<or> \<not> comes_before fr fr'" unfolding l by (rule sorted_wrt_last)
      then show ?thesis using in_scope_total[OF cs fs xs _ a(1)] that by blast
    qed
    with a show "in_scope db e side c fr \<and> identifiers_of e fr = k
     \<and> (\<forall>fr'. in_scope db e side c fr' \<and> identifiers_of e fr' = k \<longrightarrow> fr' = fr \<or> comes_before fr' fr)"
      by blast
  next
    assume r: "in_scope db e side c fr \<and> identifiers_of e fr = k
     \<and> (\<forall>fr'. in_scope db e side c fr' \<and> identifiers_of e fr' = k \<longrightarrow> fr' = fr \<or> comes_before fr' fr)"
    then have m: "fr \<in> set ?ys" using mem by blast
    then have ne: "?ys \<noteq> []" by (rule ne_in_set)
    then have "last ?ys \<in> set ?ys" by (rule last_in_set)
    then have "in_scope db e side c (last ?ys) \<and> identifiers_of e (last ?ys) = k" using mem by blast
    with r have 1: "last ?ys = fr \<or> comes_before (last ?ys) fr" by blast
    from so m have 2: "fr = last ?ys \<or> \<not> comes_before (last ?ys) fr" by (rule sorted_wrt_last)
    from 1 2 have "last ?ys = fr" by blast
    with ne show "last_frame e k h = Some fr" by (simp add: lf)
  qed
qed

lemma last_frame_any_frame_history:
  assumes cs: "distinct (map cs_id (change_sets db))"
      and fs: "distinct (map f_id (data_frames db))"
      and xs: "distinct (map rdf_frame_id side)"
      and h: "frame_history db e side c h" and h': "frame_history db e side c h'"
  shows "last_frame e k h = last_frame e k h'"
proof (cases "last_frame e k h")
  case (Some fr)
  then show ?thesis
    using last_frame_of_frame_history[OF cs fs xs h, of k fr]
          last_frame_of_frame_history[OF cs fs xs h', of k fr] by simp
next
  case None
  show ?thesis
  proof (cases "last_frame e k h'")
    case None
    with \<open>last_frame e k h = None\<close> show ?thesis by simp
  next
    case (Some fr)
    then have "last_frame e k h = Some fr"
      using last_frame_of_frame_history[OF cs fs xs h, of k fr]
            last_frame_of_frame_history[OF cs fs xs h', of k fr] by simp
    with None show ?thesis by simp
  qed
qed

subsection \<open>The fold\<close>

lemma fold_post_or_delete:
  "fold (post_or_delete e) h m k =
     (case last_frame e k h of
        None \<Rightarrow> m k
      | Some fr \<Rightarrow> if fr_action fr = DELETE then None else Some (fields_of e fr))"
proof (induction h rule: rev_induct)
  case Nil
  then show ?case by (simp add: last_frame_def)
next
  case (snoc fr h)
  show ?case
  proof (cases "identifiers_of e fr = k")
    case True
    then show ?thesis
      by (cases "fr_action fr")
         (simp_all add: last_frame_snoc post_or_delete_def identifier_tuple_identifiers_of)
  next
    case False
    then have "post_or_delete e fr (fold (post_or_delete e) h m) k = fold (post_or_delete e) h m k"
      by (cases "fr_action fr") (simp_all add: post_or_delete_def)
    with False snoc show ?thesis by (simp add: last_frame_snoc identifier_tuple_identifiers_of)
  qed
qed

lemma fold_history_latest: "fold_history e h k = latest e h k"
  by (simp add: fold_history_def latest_def fold_post_or_delete other_fields_fields_of
        split: option.splits)

text \<open>
  Claim C1. Let the ids of the change sets, of the data frames and of the side-table
  rows be distinct (their primary keys). Then for every entity and change-set id \<open>c\<close>:
  the aggregate returns the pair of an identifier tuple and fields exactly when some frame
  of the entity whose change set is at or before \<open>c\<close> in \<open>(effective, id)\<close> order has that
  declared identifier tuple, is a \<open>POST\<close>, has those non-identifier fields, and every other
  such frame with that tuple comes before it; a tuple whose last frame is a \<open>DELETE\<close> is
  thus omitted. No tuple is returned twice. A frame history of the entity up to \<open>c\<close>
  exists, and the aggregate, read as a map from identifier tuples to fields, equals the
  fold of every such history, a \<open>POST\<close> setting and a \<open>DELETE\<close> removing its tuple.
\<close>

theorem aggregate_is_fold_of_frame_history:
  assumes cs: "distinct (map cs_id (change_sets db))"
      and fs: "distinct (map f_id (data_frames db))"
      and xs: "distinct (map rdf_frame_id side)"
  shows "(\<forall>k v. (k, v) \<in> set (get_aggregate db e side c) \<longleftrightarrow>
            (\<exists>fr. in_scope db e side c fr \<and> identifiers_of e fr = k \<and> fr_action fr = POST
                 \<and> fields_of e fr = v
                 \<and> (\<forall>fr'. in_scope db e side c fr' \<and> identifiers_of e fr' = k \<longrightarrow>
                       fr' = fr \<or> comes_before fr' fr)))
       \<and> distinct (map fst (get_aggregate db e side c))
       \<and> (\<exists>h. frame_history db e side c h)
       \<and> (\<forall>h. frame_history db e side c h \<longrightarrow>
            map_of (get_aggregate db e side c) = fold_history e h)"
proof (intro conjI allI impI)
  fix k v
  note hh = history_is_frame_history[of db e side c]
  have "(k, v) \<in> set (get_aggregate db e side c) \<longleftrightarrow> map_of (get_aggregate db e side c) k = Some v"
    using distinct_get_aggregate[of db e side c] by simp
  also have "\<dots> \<longleftrightarrow> (\<exists>fr. last_frame e k (history db e side c) = Some fr \<and> fr_action fr = POST
                          \<and> fields_of e fr = v)"
  proof (cases "last_frame e k (history db e side c)")
    case None
    then show ?thesis by (simp add: map_of_get_aggregate latest_def)
  next
    case (Some fr)
    then show ?thesis
      by (cases "fr_action fr") (simp_all add: map_of_get_aggregate latest_def other_fields_fields_of)
  qed
  also have "\<dots> \<longleftrightarrow> (\<exists>fr. in_scope db e side c fr \<and> identifiers_of e fr = k \<and> fr_action fr = POST
                 \<and> fields_of e fr = v
                 \<and> (\<forall>fr'. in_scope db e side c fr' \<and> identifiers_of e fr' = k \<longrightarrow>
                       fr' = fr \<or> comes_before fr' fr))"
    unfolding last_frame_of_frame_history[OF cs fs xs hh] by blast
  finally show "(k, v) \<in> set (get_aggregate db e side c) \<longleftrightarrow>
            (\<exists>fr. in_scope db e side c fr \<and> identifiers_of e fr = k \<and> fr_action fr = POST
                 \<and> fields_of e fr = v
                 \<and> (\<forall>fr'. in_scope db e side c fr' \<and> identifiers_of e fr' = k \<longrightarrow>
                       fr' = fr \<or> comes_before fr' fr))" .
next
  show "distinct (map fst (get_aggregate db e side c))" by (rule distinct_get_aggregate)
next
  show "\<exists>h. frame_history db e side c h" using history_is_frame_history by blast
next
  fix h assume h: "frame_history db e side c h"
  show "map_of (get_aggregate db e side c) = fold_history e h"
  proof (rule ext)
    fix k
    have "last_frame e k (history db e side c) = last_frame e k h"
      using cs fs xs history_is_frame_history h by (rule last_frame_any_frame_history)
    then show "map_of (get_aggregate db e side c) k = fold_history e h k"
      by (simp add: map_of_get_aggregate fold_history_latest latest_def)
  qed
qed

text \<open>The aggregates the DSL test expects, at the first and at the third change set.\<close>

lemma vat_rate_aggregate_at_1: "get_aggregate vat_rate_db vat_rate_v1 vat_rate_v1_rows 1 =
       [([Some ''standard''], [(''rate'', ''0.10'')]),
        ([Some ''reduced''], [(''rate'', ''0.05'')]),
        ([Some ''zero''], [(''rate'', ''0'')])]"
  by code_simp

lemma vat_rate_aggregate_at_3: "get_aggregate vat_rate_db vat_rate_v1 vat_rate_v1_rows 3 =
       [([Some ''standard''], [(''rate'', ''0.15'')]),
        ([Some ''reduced''], [(''rate'', ''0.10'')])]"
  by code_simp

text \<open>
  The history entered out of order: the aggregate at each of its change sets, and the
  frames up to the third one in their order.
\<close>

lemma backdated_aggregate_at_2: "get_aggregate backdated_db vat_rate_v2 vat_rate_v2_rows 2 =
       [([Some ''standard'', Some ''uk''], [(''rate'', ''0.10'')]),
        ([Some ''standard'', Some ''ie''], [(''rate'', ''0.23'')])]"
  by code_simp

lemma backdated_aggregate_at_1: "get_aggregate backdated_db vat_rate_v2 vat_rate_v2_rows 1 =
       [([Some ''standard'', Some ''ie''], [(''rate'', ''0.23'')]),
        ([Some ''standard'', Some ''uk''], [(''rate'', ''0.20'')]),
        ([Some ''reduced'', Some ''uk''], [(''rate'', ''0.05'')])]"
  by code_simp

lemma backdated_aggregate_at_3: "get_aggregate backdated_db vat_rate_v2 vat_rate_v2_rows 3 =
       [([Some ''standard'', Some ''uk''], [(''rate'', ''0.20'')]),
        ([Some ''reduced'', Some ''uk''], [(''rate'', ''0.05'')])]"
  by code_simp

lemma backdated_history_at_3: "history backdated_db vat_rate_v2 vat_rate_v2_rows 3 =
       [\<lparr> fr_effective = 100, fr_change_set_id = 2, fr_id = 2, fr_action = POST,
          fr_fields = [(''type'', ''standard''), (''country'', ''uk''), (''rate'', ''0.10'')] \<rparr>,
        \<lparr> fr_effective = 100, fr_change_set_id = 2, fr_id = 3, fr_action = POST,
          fr_fields = [(''type'', ''standard''), (''country'', ''ie''), (''rate'', ''0.23'')] \<rparr>,
        \<lparr> fr_effective = 200, fr_change_set_id = 1, fr_id = 1, fr_action = POST,
          fr_fields = [(''type'', ''standard''), (''country'', ''uk''), (''rate'', ''0.20'')] \<rparr>,
        \<lparr> fr_effective = 200, fr_change_set_id = 1, fr_id = 5, fr_action = POST,
          fr_fields = [(''type'', ''reduced''), (''country'', ''uk''), (''rate'', ''0.05'')] \<rparr>,
        \<lparr> fr_effective = 200, fr_change_set_id = 3, fr_id = 4, fr_action = DELETE,
          fr_fields = [(''type'', ''standard''), (''country'', ''ie'')] \<rparr>]"
  by code_simp

theorem aggregate_is_fold_of_frame_history_witness:
  "distinct (map cs_id (change_sets backdated_db))
   \<and> distinct (map f_id (data_frames backdated_db))
   \<and> distinct (map rdf_frame_id vat_rate_v2_rows)
   \<and> get_aggregate backdated_db vat_rate_v2 vat_rate_v2_rows 2 =
       [([Some ''standard'', Some ''uk''], [(''rate'', ''0.10'')]),
        ([Some ''standard'', Some ''ie''], [(''rate'', ''0.23'')])]
   \<and> get_aggregate backdated_db vat_rate_v2 vat_rate_v2_rows 1 =
       [([Some ''standard'', Some ''ie''], [(''rate'', ''0.23'')]),
        ([Some ''standard'', Some ''uk''], [(''rate'', ''0.20'')]),
        ([Some ''reduced'', Some ''uk''], [(''rate'', ''0.05'')])]
   \<and> get_aggregate backdated_db vat_rate_v2 vat_rate_v2_rows 3 =
       [([Some ''standard'', Some ''uk''], [(''rate'', ''0.20'')]),
        ([Some ''reduced'', Some ''uk''], [(''rate'', ''0.05'')])]
   \<and> (\<exists>fr. in_scope backdated_db vat_rate_v2 vat_rate_v2_rows 1 fr
          \<and> identifiers_of vat_rate_v2 fr = [Some ''standard'', Some ''uk'']
          \<and> fr_action fr = POST \<and> fields_of vat_rate_v2 fr = [(''rate'', ''0.20'')])
   \<and> frame_history backdated_db vat_rate_v2 vat_rate_v2_rows 3
       [\<lparr> fr_effective = 100, fr_change_set_id = 2, fr_id = 2, fr_action = POST,
          fr_fields = [(''type'', ''standard''), (''country'', ''uk''), (''rate'', ''0.10'')] \<rparr>,
        \<lparr> fr_effective = 100, fr_change_set_id = 2, fr_id = 3, fr_action = POST,
          fr_fields = [(''type'', ''standard''), (''country'', ''ie''), (''rate'', ''0.23'')] \<rparr>,
        \<lparr> fr_effective = 200, fr_change_set_id = 1, fr_id = 1, fr_action = POST,
          fr_fields = [(''type'', ''standard''), (''country'', ''uk''), (''rate'', ''0.20'')] \<rparr>,
        \<lparr> fr_effective = 200, fr_change_set_id = 1, fr_id = 5, fr_action = POST,
          fr_fields = [(''type'', ''reduced''), (''country'', ''uk''), (''rate'', ''0.05'')] \<rparr>,
        \<lparr> fr_effective = 200, fr_change_set_id = 3, fr_id = 4, fr_action = DELETE,
          fr_fields = [(''type'', ''standard''), (''country'', ''ie'')] \<rparr>]
   \<and> fold_history vat_rate_v2
       [\<lparr> fr_effective = 100, fr_change_set_id = 2, fr_id = 2, fr_action = POST,
          fr_fields = [(''type'', ''standard''), (''country'', ''uk''), (''rate'', ''0.10'')] \<rparr>,
        \<lparr> fr_effective = 100, fr_change_set_id = 2, fr_id = 3, fr_action = POST,
          fr_fields = [(''type'', ''standard''), (''country'', ''ie''), (''rate'', ''0.23'')] \<rparr>,
        \<lparr> fr_effective = 200, fr_change_set_id = 1, fr_id = 1, fr_action = POST,
          fr_fields = [(''type'', ''standard''), (''country'', ''uk''), (''rate'', ''0.20'')] \<rparr>,
        \<lparr> fr_effective = 200, fr_change_set_id = 1, fr_id = 5, fr_action = POST,
          fr_fields = [(''type'', ''reduced''), (''country'', ''uk''), (''rate'', ''0.05'')] \<rparr>,
        \<lparr> fr_effective = 200, fr_change_set_id = 3, fr_id = 4, fr_action = DELETE,
          fr_fields = [(''type'', ''standard''), (''country'', ''ie'')] \<rparr>]
       = map_of [([Some ''standard'', Some ''uk''], [(''rate'', ''0.20'')]),
                 ([Some ''reduced'', Some ''uk''], [(''rate'', ''0.05'')])]"
proof -
  let ?h = "[\<lparr> fr_effective = 100, fr_change_set_id = 2, fr_id = 2, fr_action = POST,
          fr_fields = [(''type'', ''standard''), (''country'', ''uk''), (''rate'', ''0.10'')] \<rparr>,
        \<lparr> fr_effective = 100, fr_change_set_id = 2, fr_id = 3, fr_action = POST,
          fr_fields = [(''type'', ''standard''), (''country'', ''ie''), (''rate'', ''0.23'')] \<rparr>,
        \<lparr> fr_effective = 200, fr_change_set_id = 1, fr_id = 1, fr_action = POST,
          fr_fields = [(''type'', ''standard''), (''country'', ''uk''), (''rate'', ''0.20'')] \<rparr>,
        \<lparr> fr_effective = 200, fr_change_set_id = 1, fr_id = 5, fr_action = POST,
          fr_fields = [(''type'', ''reduced''), (''country'', ''uk''), (''rate'', ''0.05'')] \<rparr>,
        \<lparr> fr_effective = 200, fr_change_set_id = 3, fr_id = 4, fr_action = DELETE,
          fr_fields = [(''type'', ''standard''), (''country'', ''ie'')] \<rparr>]"
  have h1: "distinct (map cs_id (change_sets backdated_db))"
    by (simp add: backdated_db_def change_set_row_def)
  have h2: "distinct (map f_id (data_frames backdated_db))"
    by (simp add: backdated_db_def)
  have h3: "distinct (map rdf_frame_id vat_rate_v2_rows)"
    by (simp add: vat_rate_v2_rows_def)
  note t1 = aggregate_is_fold_of_frame_history[OF h1 h2 h3, of vat_rate_v2 1]
  note t3 = aggregate_is_fold_of_frame_history[OF h1 h2 h3, of vat_rate_v2 3]
  have "([Some ''standard'', Some ''uk''], [(''rate'', ''0.20'')])
          \<in> set (get_aggregate backdated_db vat_rate_v2 vat_rate_v2_rows 1)"
    unfolding backdated_aggregate_at_1 by simp
  with t1 have c1: "\<exists>fr. in_scope backdated_db vat_rate_v2 vat_rate_v2_rows 1 fr
          \<and> identifiers_of vat_rate_v2 fr = [Some ''standard'', Some ''uk'']
          \<and> fr_action fr = POST \<and> fields_of vat_rate_v2 fr = [(''rate'', ''0.20'')]"
    by blast
  have fh: "frame_history backdated_db vat_rate_v2 vat_rate_v2_rows 3 ?h"
    using history_is_frame_history[of backdated_db vat_rate_v2 vat_rate_v2_rows 3]
    unfolding backdated_history_at_3 .
  with t3 have "map_of (get_aggregate backdated_db vat_rate_v2 vat_rate_v2_rows 3) =
      fold_history vat_rate_v2 ?h"
    by blast
  then have c3: "fold_history vat_rate_v2 ?h =
      map_of [([Some ''standard'', Some ''uk''], [(''rate'', ''0.20'')]),
              ([Some ''reduced'', Some ''uk''], [(''rate'', ''0.05'')])]"
    unfolding backdated_aggregate_at_3 by (rule sym)
  from h1 h2 h3 backdated_aggregate_at_2 backdated_aggregate_at_1 backdated_aggregate_at_3
    c1 fh c3
  show ?thesis by (intro conjI)
qed

section \<open>Properties of the validation\<close>



subsection \<open>The index in a message\<close>






subsection \<open>A message points at a violation\<close>











end
